theory Spec2Isabelle
  imports Main "HOL-Library.Word"
begin

unbundle bit_operations_syntax

section \<open>Data model (include/proc.h)\<close>

type_synonym uint = "32 word"
type_synonym cint = "32 word"

text \<open>\<^verbatim>\<open>enum procstate { UNUSED, EMBRYO, SLEEPING, RUNNABLE, RUNNING, ZOMBIE }\<close>\<close>

datatype procstate = UNUSED | EMBRYO | SLEEPING | RUNNABLE | RUNNING | ZOMBIE

text \<open>
  Values of type \<^verbatim>\<open>void *\<close> used as sleep channels: the null pointer, the address of
  slot \<open>i\<close> of \<^verbatim>\<open>ptable.proc\<close>, the address of the global \<^verbatim>\<open>ticks\<close>, and any other
  kernel address.
\<close>

datatype addr = NULL | PROC nat | TICKS | ADDR nat

text \<open>
  A \<^verbatim>\<open>struct proc *\<close> is \<open>None\<close> (null) or \<open>Some i\<close>, the address of slot \<open>i\<close>; the cast
  to \<^verbatim>\<open>void *\<close> (as in \<^verbatim>\<open>sleep(curproc, ...)\<close> and \<^verbatim>\<open>wakeup1(curproc->parent)\<close>) is
  \<open>chan_of\<close>.
\<close>

fun chan_of :: "nat option \<Rightarrow> addr" where
  "chan_of None = NULL"
| "chan_of (Some i) = PROC i"

text \<open>Spin locks of the kernel, named by the object they are a field of.\<close>

datatype lock = PTABLE_LOCK | TICKSLOCK | KMEM_LOCK | IDELOCK | LOCK nat

text \<open>\<^verbatim>\<open>struct context\<close>: the callee-saved registers pushed by \<^verbatim>\<open>swtch\<close>.\<close>

record kcontext =
  ctx_edi :: uint
  ctx_esi :: uint
  ctx_ebx :: uint
  ctx_ebp :: uint
  ctx_eip :: uint

text \<open>
  \<^verbatim>\<open>struct trapframe\<close>. Its declaration (x86.h) is not among the sources; the fields are
  the ones \<^verbatim>\<open>alltraps\<close> and the hardware push, in that order, and the code of proc.c and
  trap.c reads \<open>eax\<close>, \<open>trapno\<close>, \<open>err\<close>, \<open>eip\<close>, \<open>cs\<close>, \<open>eflags\<close>, \<open>esp\<close>, \<open>ds\<close>, \<open>es\<close>, \<open>ss\<close>.
\<close>

record trapframe =
  edi :: uint
  esi :: uint
  ebp :: uint
  oesp :: uint
  ebx :: uint
  edx :: uint
  ecx :: uint
  eax :: uint
  gs :: "16 word"
  fs :: "16 word"
  es :: "16 word"
  ds :: "16 word"
  trapno :: uint
  err :: uint
  eip :: uint
  cs :: "16 word"
  eflags :: uint
  esp :: uint
  ss :: "16 word"

text \<open>
  \<^verbatim>\<open>struct proc\<close>. Addresses (\<open>pgdir\<close>, \<open>kstack\<close>, \<open>tf\<close>, \<open>ctx\<close>, open files, \<open>cwd\<close>) are
  natural numbers with 0 the null pointer; the field \<^verbatim>\<open>context\<close> is called \<open>ctx\<close>.
\<close>

record proc =
  sz :: uint
  pgdir :: nat
  kstack :: nat
  state :: procstate
  pid :: cint
  parent :: "nat option"
  tf :: nat
  ctx :: nat
  chan :: addr
  killed :: cint
  ofile :: "nat list"
  cwd :: nat
  name :: string

text \<open>
  What the kernel does to its collaborators and to its locks, in the order it does it.
\<close>

datatype event =
    EAcquire lock | ERelease lock | ESwtch
  | EFiledup nat | EIdup nat | EFileclose nat | EIput nat | EBeginOp | EEndOp
  | ESwitchuvm nat | ESwitchkvm | ELapiceoi | ECprintf string

text \<open>
  The kernel state seen from one processor: the process table \<^verbatim>\<open>ptable.proc\<close> (its length
  is \<^verbatim>\<open>NPROC\<close>), the spin locks this processor holds, the processor's \<^verbatim>\<open>ncli\<close>, \<^verbatim>\<open>intena\<close>
  and interrupt flag \<^verbatim>\<open>FL_IF\<close> (\<open>intr\<close>), \<^verbatim>\<open>mycpu()->proc\<close> and \<^verbatim>\<open>cpuid()\<close>, the globals
  \<^verbatim>\<open>nextpid\<close>, \<^verbatim>\<open>initproc\<close> and \<^verbatim>\<open>ticks\<close>, the page allocator's free list and
  \<^verbatim>\<open>kmem.use_lock\<close>, the memory holding trap frames, contexts and stack words, and the
  log of events.
\<close>

record kstate =
  ptable :: "proc list"
  locks :: "lock set"
  ncli :: int
  intena :: bool
  intr :: bool
  cpu_proc :: "nat option"
  cpu_id :: nat
  nextpid :: cint
  initproc :: "nat option"
  ticks :: uint
  freelist :: "nat list"
  use_lock :: bool
  tfs :: "nat \<Rightarrow> trapframe"
  ctxs :: "nat \<Rightarrow> kcontext"
  stackw :: "nat \<Rightarrow> uint"
  trace :: "event list"

text \<open>
  How a kernel function ends: it returns a value (\<open>Ret\<close>), it calls \<^verbatim>\<open>panic\<close> (\<open>Panic\<close>, with
  the message), control never comes back to it (\<open>Away\<close>: the process was switched out and
  is never resumed, or the processor spins forever), or the model ran out of fuel in a
  loop that has no bound (\<open>Timeout\<close>).
\<close>

datatype 'a result = Ret 'a kstate | Panic string kstate | Away kstate | Timeout kstate

fun kbind :: "'a result \<Rightarrow> ('a \<Rightarrow> kstate \<Rightarrow> 'b result) \<Rightarrow> 'b result" where
  "kbind (Ret a s) f = f a s"
| "kbind (Panic m s) f = Panic m s"
| "kbind (Away s) f = Away s"
| "kbind (Timeout s) f = Timeout s"

fun ret_val :: "'a result \<Rightarrow> 'a option" where
  "ret_val (Ret a s) = Some a"
| "ret_val (Panic m s) = None"
| "ret_val (Away s) = None"
| "ret_val (Timeout s) = None"

fun state_of :: "'a result \<Rightarrow> kstate" where
  "state_of (Ret a s) = s"
| "state_of (Panic m s) = s"
| "state_of (Away s) = s"
| "state_of (Timeout s) = s"

text \<open>
  The collaborators of proc.c and trap.c whose code is outside this development, as
  functions the kernel functions take as a parameter:
  \<^item> \<open>resume\<close>: what happens between \<^verbatim>\<open>swtch(&p->context, mycpu()->scheduler)\<close> in \<^verbatim>\<open>sched\<close>
    and the moment the scheduler switches back into this process (the scheduler and the
    other processes run); \<open>None\<close> when the process is never resumed;
  \<^item> \<open>run_proc\<close>: the other direction, what happens between the scheduler's
    \<^verbatim>\<open>swtch(&(c->scheduler), p->context)\<close> and the moment the process switches back;
  \<^item> the constants of mmu.h, param.h and memlayout.h (\<^verbatim>\<open>PGSIZE\<close>, \<^verbatim>\<open>KSTACKSIZE\<close>,
    \<^verbatim>\<open>KERNBASE\<close>, \<^verbatim>\<open>PHYSTOP\<close>), \<^verbatim>\<open>sizeof(struct trapframe)\<close> (\<open>TFSIZE\<close>), the linker
    symbol \<^verbatim>\<open>end\<close> (\<open>kend\<close>) and the addresses of \<^verbatim>\<open>trapret\<close> and \<^verbatim>\<open>forkret\<close>;
  \<^item> \<open>copyuvm_op\<close> and \<open>freevm_op\<close>: the address-space manager (vm.c), which works on the
    page allocator's free list; \<open>copyuvm_op\<close> returns the new page directory, 0 on failure;
  \<^item> \<open>syscall_op\<close>, \<open>ideintr_op\<close>, \<open>kbdintr_op\<close>, \<open>uartintr_op\<close>: the system-call handler
    and the device drivers' interrupt routines.
\<close>

record world =
  resume :: "kstate \<Rightarrow> kstate option"
  run_proc :: "kstate \<Rightarrow> kstate option"
  PGSIZE :: nat
  KSTACKSIZE :: nat
  TFSIZE :: nat
  kend :: nat
  KERNBASE :: nat
  PHYSTOP :: nat
  trapret :: uint
  forkret :: uint
  copyuvm_op :: "nat \<Rightarrow> uint \<Rightarrow> nat list \<Rightarrow> nat \<times> nat list"
  freevm_op :: "nat \<Rightarrow> nat list \<Rightarrow> nat list"
  syscall_op :: "kstate \<Rightarrow> unit result"
  ideintr_op :: "kstate \<Rightarrow> unit result"
  kbdintr_op :: "kstate \<Rightarrow> unit result"
  uartintr_op :: "kstate \<Rightarrow> unit result"

definition log :: "event \<Rightarrow> kstate \<Rightarrow> kstate" where
  "log e s = s\<lparr>trace := trace s @ [e]\<rparr>"

text \<open>\<open>upd_proc p f\<close> is an assignment to fields of \<^verbatim>\<open>*p\<close>, for \<open>p\<close> a slot of the table.\<close>

definition upd_proc :: "nat \<Rightarrow> (proc \<Rightarrow> proc) \<Rightarrow> kstate \<Rightarrow> kstate" where
  "upd_proc p f s = s\<lparr>ptable := (ptable s)[p := f (ptable s ! p)]\<rparr>"

section \<open>Spin locks\<close>

text \<open>
  Modelled from the spec: spinlock.c (\<^verbatim>\<open>acquire\<close>, \<^verbatim>\<open>release\<close>, \<^verbatim>\<open>holding\<close>, \<^verbatim>\<open>pushcli\<close>,
  \<^verbatim>\<open>popcli\<close>) is not among the sources. Section 4.1 of the specification: acquire blocks
  the calling processor until the lock is free, then claims it, and disables interrupts
  on the processor, with a nesting counter so that the interrupt-enable state from before
  the outermost acquire comes back only when the outermost lock is released; releasing a
  lock that is not held is fatal (section 7), as is a nesting counter that would go
  negative or is decremented with interrupts on. A processor that acquires a lock it
  holds itself waits forever. Other processors are not part of the state, so a lock is
  free here when this processor does not hold it.
\<close>

definition holding :: "lock \<Rightarrow> kstate \<Rightarrow> bool" where
  "holding l s = (l \<in> locks s)"

definition pushcli :: "kstate \<Rightarrow> kstate" where
  "pushcli s = s\<lparr>ncli := ncli s + 1,
                  intena := (if ncli s = 0 then intr s else intena s),
                  intr := False\<rparr>"

definition popcli :: "kstate \<Rightarrow> unit result" where
  "popcli s =
     (if intr s then Panic ''popcli - interruptible'' s
      else if ncli s - 1 < 0 then Panic ''popcli'' (s\<lparr>ncli := ncli s - 1\<rparr>)
      else Ret () (s\<lparr>ncli := ncli s - 1, intr := (ncli s - 1 = 0 \<and> intena s)\<rparr>))"

definition acquire :: "lock \<Rightarrow> kstate \<Rightarrow> unit result" where
  "acquire l s =
     (let s1 = pushcli s in
      if holding l s1 then Away s1
      else Ret () (log (EAcquire l) (s1\<lparr>locks := insert l (locks s1)\<rparr>)))"

definition release :: "lock \<Rightarrow> kstate \<Rightarrow> unit result" where
  "release l s =
     (if \<not> holding l s then Panic ''release'' s
      else popcli (log (ERelease l) (s\<lparr>locks := locks s - {l}\<rparr>)))"

section \<open>Sleep and wakeup (kernel/proc.c)\<close>

text \<open>
  \<^verbatim>\<open>myproc()\<close> reads \<^verbatim>\<open>mycpu()->proc\<close> between \<^verbatim>\<open>pushcli\<close> and \<^verbatim>\<open>popcli\<close>; the functions
  below read \<open>cpu_proc\<close>. Where the source dereferences a null \<^verbatim>\<open>struct proc *\<close>, the page
  fault taken in the kernel ends in \<^verbatim>\<open>panic("trap")\<close> (the default case of \<^verbatim>\<open>trap\<close>).

  \<^verbatim>\<open>sched\<close>: the four checks in the order of the source, then \<^verbatim>\<open>swtch\<close> into the
  scheduler; \<^verbatim>\<open>intena\<close> is saved before and restored after. What runs until the process
  is switched back in is \<open>resume W\<close>.
\<close>

definition sched :: "world \<Rightarrow> kstate \<Rightarrow> unit result" where
  "sched W s =
     (if \<not> holding PTABLE_LOCK s then Panic ''sched ptable.lock'' s
      else if ncli s \<noteq> 1 then Panic ''sched locks'' s
      else (case cpu_proc s of
              None \<Rightarrow> Panic ''trap'' s
            | Some p \<Rightarrow>
                if state (ptable s ! p) = RUNNING then Panic ''sched running'' s
                else if intr s then Panic ''sched interruptible'' s
                else (case resume W (log ESwtch s) of
                        None \<Rightarrow> Away (log ESwtch s)
                      | Some s1 \<Rightarrow> Ret () (s1\<lparr>intena := intena s\<rparr>))))"

definition sleep :: "world \<Rightarrow> addr \<Rightarrow> lock option \<Rightarrow> kstate \<Rightarrow> unit result" where
  "sleep W c lk s =
     (case cpu_proc s of
        None \<Rightarrow> Panic ''sleep'' s
      | Some p \<Rightarrow>
          (case lk of
             None \<Rightarrow> Panic ''sleep without lk'' s
           | Some l \<Rightarrow>
               kbind (if l \<noteq> PTABLE_LOCK
                      then kbind (acquire PTABLE_LOCK s) (\<lambda>_. release l)
                      else Ret () s)
                 (\<lambda>_ s1.
                    kbind (sched W (upd_proc p (\<lambda>r. r\<lparr>chan := c, state := SLEEPING\<rparr>) s1))
                      (\<lambda>_ s2.
                         let s3 = upd_proc p (\<lambda>r. r\<lparr>chan := NULL\<rparr>) s2 in
                         if l \<noteq> PTABLE_LOCK
                         then kbind (release PTABLE_LOCK s3) (\<lambda>_. acquire l)
                         else Ret () s3))))"

text \<open>\<^verbatim>\<open>wakeup1\<close>: the loop visits every slot once and touches only that slot.\<close>

definition wakeup1 :: "addr \<Rightarrow> kstate \<Rightarrow> kstate" where
  "wakeup1 c s =
     s\<lparr>ptable := map (\<lambda>p. if state p = SLEEPING \<and> chan p = c
                           then p\<lparr>state := RUNNABLE\<rparr> else p) (ptable s)\<rparr>"

definition wakeup :: "addr \<Rightarrow> kstate \<Rightarrow> unit result" where
  "wakeup c s =
     kbind (acquire PTABLE_LOCK s) (\<lambda>_ s1. release PTABLE_LOCK (wakeup1 c s1))"

text \<open>\<^verbatim>\<open>kill\<close>: the first slot whose \<open>pid\<close> matches, whatever its state.\<close>

fun find_first :: "('a \<Rightarrow> bool) \<Rightarrow> 'a list \<Rightarrow> nat option" where
  "find_first P [] = None"
| "find_first P (x # xs) = (if P x then Some 0 else map_option Suc (find_first P xs))"

definition kill :: "cint \<Rightarrow> kstate \<Rightarrow> cint result" where
  "kill pd s =
     kbind (acquire PTABLE_LOCK s)
       (\<lambda>_ s1.
          case find_first (\<lambda>p. pid p = pd) (ptable s1) of
            Some i \<Rightarrow>
              (let s2 = upd_proc i (\<lambda>r. r\<lparr>killed := 1\<rparr>) s1;
                   s3 = (if state (ptable s2 ! i) = SLEEPING
                         then upd_proc i (\<lambda>r. r\<lparr>state := RUNNABLE\<rparr>) s2 else s2)
               in kbind (release PTABLE_LOCK s3) (\<lambda>_. Ret 0))
          | None \<Rightarrow> kbind (release PTABLE_LOCK s1) (\<lambda>_. Ret (- 1)))"

definition yield :: "world \<Rightarrow> kstate \<Rightarrow> unit result" where
  "yield W s =
     kbind (acquire PTABLE_LOCK s)
       (\<lambda>_ s1.
          case cpu_proc s1 of
            None \<Rightarrow> Panic ''trap'' s1
          | Some p \<Rightarrow>
              kbind (sched W (upd_proc p (\<lambda>r. r\<lparr>state := RUNNABLE\<rparr>) s1))
                (\<lambda>_. release PTABLE_LOCK))"

section \<open>Page allocator (kernel/kalloc.c)\<close>

text \<open>
  The free list is the list of the pages' addresses, head first. \<^verbatim>\<open>kfree\<close> fills the page
  with bytes of value 1 before it links it in: whatever trap frame, context or stack word
  the model keeps at an address of the page is junk afterwards. \<^verbatim>\<open>V2P\<close> subtracts
  \<^verbatim>\<open>KERNBASE\<close> in 32-bit arithmetic.
\<close>

definition junk_tf :: trapframe where
  "junk_tf = \<lparr>edi = 0x01010101, esi = 0x01010101, ebp = 0x01010101, oesp = 0x01010101,
              ebx = 0x01010101, edx = 0x01010101, ecx = 0x01010101, eax = 0x01010101,
              gs = 0x0101, fs = 0x0101, es = 0x0101, ds = 0x0101,
              trapno = 0x01010101, err = 0x01010101, eip = 0x01010101, cs = 0x0101,
              eflags = 0x01010101, esp = 0x01010101, ss = 0x0101\<rparr>"

definition junk_ctx :: kcontext where
  "junk_ctx = \<lparr>ctx_edi = 0x01010101, ctx_esi = 0x01010101, ctx_ebx = 0x01010101,
               ctx_ebp = 0x01010101, ctx_eip = 0x01010101\<rparr>"

definition junk_fill :: "nat \<Rightarrow> nat \<Rightarrow> kstate \<Rightarrow> kstate" where
  "junk_fill v n s =
     s\<lparr>tfs := (\<lambda>a. if v \<le> a \<and> a < v + n then junk_tf else tfs s a),
       ctxs := (\<lambda>a. if v \<le> a \<and> a < v + n then junk_ctx else ctxs s a),
       stackw := (\<lambda>a. if v \<le> a \<and> a < v + n then 0x01010101 else stackw s a)\<rparr>"

definition V2P :: "world \<Rightarrow> nat \<Rightarrow> nat" where
  "V2P W v = (v + 2 ^ 32 - KERNBASE W mod 2 ^ 32) mod 2 ^ 32"

definition kfree :: "world \<Rightarrow> nat \<Rightarrow> kstate \<Rightarrow> unit result" where
  "kfree W v s =
     (if v mod PGSIZE W \<noteq> 0 \<or> v < kend W \<or> V2P W v \<ge> PHYSTOP W then Panic ''kfree'' s
      else
        kbind (if use_lock s then acquire KMEM_LOCK (junk_fill v (PGSIZE W) s)
               else Ret () (junk_fill v (PGSIZE W) s))
          (\<lambda>_ s1.
             let s2 = s1\<lparr>freelist := v # freelist s1\<rparr> in
             if use_lock s2 then release KMEM_LOCK s2 else Ret () s2))"

text \<open>The addresses \<^verbatim>\<open>kfree\<close> accepts: the negation of its panic condition.\<close>

abbreviation page_ok :: "world \<Rightarrow> nat \<Rightarrow> bool" where
  "page_ok W v \<equiv> v mod PGSIZE W = 0 \<and> kend W \<le> v \<and> V2P W v < PHYSTOP W"

text \<open>
  The interrupt state of a processor between kernel operations: the nesting depth is not
  negative, and interrupts are off while it is positive.
\<close>

abbreviation cli_ok :: "kstate \<Rightarrow> bool" where
  "cli_ok s \<equiv> 0 \<le> ncli s \<and> (ncli s = 0 \<or> \<not> intr s)"

definition kalloc :: "kstate \<Rightarrow> nat result" where
  "kalloc s =
     kbind (if use_lock s then acquire KMEM_LOCK s else Ret () s)
       (\<lambda>_ s1.
          let r = (case freelist s1 of [] \<Rightarrow> 0 | v # _ \<Rightarrow> v);
              s2 = (if r \<noteq> 0 then s1\<lparr>freelist := tl (freelist s1)\<rparr> else s1)
          in kbind (if use_lock s2 then release KMEM_LOCK s2 else Ret () s2)
               (\<lambda>_. Ret r))"

section \<open>Process creation (kernel/proc.c)\<close>

text \<open>
  \<^verbatim>\<open>allocproc\<close>: the first \<^verbatim>\<open>UNUSED\<close> slot becomes \<^verbatim>\<open>EMBRYO\<close> and takes \<^verbatim>\<open>nextpid++\<close>; the
  kernel stack is laid out from its top: the trap frame, the return address \<^verbatim>\<open>trapret\<close>,
  the context whose \<open>eip\<close> is \<^verbatim>\<open>forkret\<close>. The result is the slot, \<open>None\<close> for the null
  pointer.
\<close>

definition allocproc :: "world \<Rightarrow> kstate \<Rightarrow> nat option result" where
  "allocproc W s =
     kbind (acquire PTABLE_LOCK s)
       (\<lambda>_ s1.
          case find_first (\<lambda>p. state p = UNUSED) (ptable s1) of
            None \<Rightarrow> kbind (release PTABLE_LOCK s1) (\<lambda>_. Ret None)
          | Some p \<Rightarrow>
              kbind (release PTABLE_LOCK
                       ((upd_proc p (\<lambda>r. r\<lparr>state := EMBRYO, pid := nextpid s1\<rparr>) s1)
                          \<lparr>nextpid := nextpid s1 + 1\<rparr>))
                (\<lambda>_ s2.
                   kbind (kalloc s2)
                     (\<lambda>k s3.
                        if k = 0
                        then Ret None
                               (upd_proc p (\<lambda>r. r\<lparr>kstack := 0, state := UNUSED\<rparr>) s3)
                        else
                          (let sp1 = k + KSTACKSIZE W - TFSIZE W;
                               sp2 = sp1 - 4;
                               sp3 = sp2 - 20;
                               s4 = upd_proc p (\<lambda>r. r\<lparr>kstack := k, tf := sp1, ctx := sp3\<rparr>) s3
                           in Ret (Some p)
                                (s4\<lparr>stackw := (stackw s4)(sp2 := trapret W),
                                    ctxs := (ctxs s4)(sp3 :=
                                      \<lparr>ctx_edi = 0, ctx_esi = 0, ctx_ebx = 0, ctx_ebp = 0,
                                       ctx_eip = forkret W\<rparr>)\<rparr>)))))"

text \<open>
  Modelled from the spec: the file layer (\<^verbatim>\<open>filedup\<close>, \<^verbatim>\<open>idup\<close>, \<^verbatim>\<open>fileclose\<close>, \<^verbatim>\<open>iput\<close>,
  \<^verbatim>\<open>begin_op\<close>, \<^verbatim>\<open>end_op\<close>) and \<^verbatim>\<open>safestrcpy\<close> are not among the sources. Section 6:
  opaque open-file and directory handles with duplicate, close and release-directory;
  duplicating a handle gives the handle back with one more reference. The calls are
  logged. \<^verbatim>\<open>safestrcpy(t, s, n)\<close> copies at most \<open>n - 1\<close> characters.
\<close>

definition safestrcpy :: "string \<Rightarrow> nat \<Rightarrow> string" where
  "safestrcpy src n = take (n - 1) src"

text \<open>
  The loop of \<^verbatim>\<open>fork\<close> over the open files: a slot of the child is written only where
  the parent's is not null.
\<close>

fun dup_files :: "nat list \<Rightarrow> nat list \<Rightarrow> nat list" where
  "dup_files (c # cfs) (n # nfs) = (if c \<noteq> 0 then c else n) # dup_files cfs nfs"
| "dup_files [] nfs = nfs"
| "dup_files cfs [] = []"

definition log_all :: "event list \<Rightarrow> kstate \<Rightarrow> kstate" where
  "log_all evs s = s\<lparr>trace := trace s @ evs\<rparr>"

definition fork :: "world \<Rightarrow> kstate \<Rightarrow> cint result" where
  "fork W s =
     kbind (allocproc W s)
       (\<lambda>np s1.
          case np of
            None \<Rightarrow> Ret (- 1) s1
          | Some n \<Rightarrow>
              (case cpu_proc s of
                 None \<Rightarrow> Panic ''trap'' s1
               | Some c \<Rightarrow>
                   (let cur = ptable s1 ! c;
                        (d, fl) = copyuvm_op W (pgdir cur) (sz cur) (freelist s1);
                        s2 = upd_proc n (\<lambda>r. r\<lparr>pgdir := d\<rparr>) (s1\<lparr>freelist := fl\<rparr>)
                    in if d = 0
                       then kbind (kfree W (kstack (ptable s2 ! n)) s2)
                              (\<lambda>_ s3. Ret (- 1)
                                 (upd_proc n (\<lambda>r. r\<lparr>kstack := 0, state := UNUSED\<rparr>) s3))
                       else
                         (let s3 = upd_proc n (\<lambda>r. r\<lparr>sz := sz (ptable s2 ! c),
                                                       parent := Some c\<rparr>) s2;
                              t = tf (ptable s3 ! n);
                              s4 = s3\<lparr>tfs := (tfs s3)(t := tfs s3 (tf (ptable s3 ! c)))\<rparr>;
                              s5 = s4\<lparr>tfs := (tfs s4)(t := (tfs s4 t)\<lparr>eax := 0\<rparr>)\<rparr>;
                              cf = ofile (ptable s5 ! c);
                              s6 = log_all (map EFiledup (filter (\<lambda>f. f \<noteq> 0) cf))
                                     (upd_proc n (\<lambda>r. r\<lparr>ofile := dup_files cf (ofile r)\<rparr>) s5);
                              s7 = log (EIdup (cwd (ptable s6 ! c)))
                                     (upd_proc n (\<lambda>r. r\<lparr>cwd := cwd (ptable s6 ! c)\<rparr>) s6);
                              s8 = upd_proc n
                                     (\<lambda>r. r\<lparr>name := safestrcpy (name (ptable s7 ! c)) 16\<rparr>) s7;
                              pd = pid (ptable s8 ! n)
                          in kbind (acquire PTABLE_LOCK s8)
                               (\<lambda>_ s9.
                                  kbind (release PTABLE_LOCK
                                           (upd_proc n (\<lambda>r. r\<lparr>state := RUNNABLE\<rparr>) s9))
                                    (\<lambda>_. Ret pd))))))"

section \<open>Exit and wait (kernel/proc.c)\<close>

text \<open>
  The loop of \<^verbatim>\<open>exit\<close> that passes the children on to \<^verbatim>\<open>initproc\<close>, over the slots in
  order.
\<close>

fun reparent :: "nat list \<Rightarrow> nat option \<Rightarrow> kstate \<Rightarrow> kstate" where
  "reparent [] c s = s"
| "reparent (i # ps) c s =
     reparent ps c
       (if parent (ptable s ! i) = c
        then (let s1 = upd_proc i (\<lambda>r. r\<lparr>parent := initproc s\<rparr>) s in
              if state (ptable s1 ! i) = ZOMBIE then wakeup1 (chan_of (initproc s1)) s1
              else s1)
        else s)"

definition exit :: "world \<Rightarrow> kstate \<Rightarrow> unit result" where
  "exit W s =
     (if cpu_proc s = initproc s then Panic ''init exiting'' s
      else case cpu_proc s of
        None \<Rightarrow> Panic ''trap'' s
      | Some c \<Rightarrow>
          (let s1 = log_all (map EFileclose (filter (\<lambda>f. f \<noteq> 0) (ofile (ptable s ! c))))
                      (upd_proc c (\<lambda>r. r\<lparr>ofile := map (\<lambda>_. 0) (ofile r)\<rparr>) s);
               s2 = log_all [EBeginOp, EIput (cwd (ptable s1 ! c)), EEndOp] s1;
               s3 = upd_proc c (\<lambda>r. r\<lparr>cwd := 0\<rparr>) s2
           in kbind (acquire PTABLE_LOCK s3)
                (\<lambda>_ s4.
                   let s5 = wakeup1 (chan_of (parent (ptable s4 ! c))) s4;
                       s6 = reparent [0..<length (ptable s5)] (Some c) s5;
                       s7 = upd_proc c (\<lambda>r. r\<lparr>state := ZOMBIE\<rparr>) s6
                   in kbind (sched W s7) (\<lambda>_ s8. Panic ''zombie exit'' s8))))"

text \<open>
  One pass of \<^verbatim>\<open>wait\<close> over the table. The result is the identifier of the child that
  was reaped, if any, and \<^verbatim>\<open>havekids\<close>. \<^verbatim>\<open>freevm\<close> panics on a null page directory.
\<close>

definition freevm :: "world \<Rightarrow> nat \<Rightarrow> kstate \<Rightarrow> unit result" where
  "freevm W pg s =
     (if pg = 0 then Panic ''freevm: no pgdir'' s
      else Ret () (s\<lparr>freelist := freevm_op W pg (freelist s)\<rparr>))"

fun wait_scan ::
  "world \<Rightarrow> nat list \<Rightarrow> nat option \<Rightarrow> bool \<Rightarrow> kstate \<Rightarrow> (cint option \<times> bool) result" where
  "wait_scan W [] c hk s = Ret (None, hk) s"
| "wait_scan W (i # ps) c hk s =
     (if parent (ptable s ! i) \<noteq> c then wait_scan W ps c hk s
      else if state (ptable s ! i) = ZOMBIE
      then (let pd = pid (ptable s ! i) in
            kbind (kfree W (kstack (ptable s ! i)) s)
              (\<lambda>_ s1.
                 let s2 = upd_proc i (\<lambda>r. r\<lparr>kstack := 0\<rparr>) s1 in
                 kbind (freevm W (pgdir (ptable s2 ! i)) s2)
                   (\<lambda>_ s3.
                      kbind (release PTABLE_LOCK
                               (upd_proc i (\<lambda>r. r\<lparr>pid := 0, parent := None, name := [],
                                                  killed := 0, state := UNUSED\<rparr>) s3))
                        (\<lambda>_. Ret (Some pd, True)))))
      else wait_scan W ps c True s)"

fun wait_loop :: "world \<Rightarrow> nat \<Rightarrow> nat option \<Rightarrow> kstate \<Rightarrow> cint result" where
  "wait_loop W 0 c s = Timeout s"
| "wait_loop W (Suc k) c s =
     kbind (wait_scan W [0..<length (ptable s)] c False s)
       (\<lambda>(r, hk) s1.
          case r of
            Some pd \<Rightarrow> Ret pd s1
          | None \<Rightarrow>
              (case c of
                 None \<Rightarrow> if \<not> hk then kbind (release PTABLE_LOCK s1) (\<lambda>_. Ret (- 1))
                         else Panic ''trap'' s1
               | Some p \<Rightarrow>
                   if \<not> hk \<or> killed (ptable s1 ! p) \<noteq> 0
                   then kbind (release PTABLE_LOCK s1) (\<lambda>_. Ret (- 1))
                   else kbind (sleep W (chan_of c) (Some PTABLE_LOCK) s1)
                          (\<lambda>_. wait_loop W k c)))"

text \<open>\<^verbatim>\<open>wait\<close>; \<open>fuel\<close> bounds the number of passes of \<^verbatim>\<open>for(;;)\<close>.\<close>

definition wait :: "world \<Rightarrow> nat \<Rightarrow> kstate \<Rightarrow> cint result" where
  "wait W fuel s =
     kbind (acquire PTABLE_LOCK s) (\<lambda>_. wait_loop W fuel (cpu_proc s))"


section \<open>Scheduler (kernel/proc.c, kernel/vm.c)\<close>

definition switchuvm :: "nat option \<Rightarrow> kstate \<Rightarrow> unit result" where
  "switchuvm po s =
     (case po of
        None \<Rightarrow> Panic ''switchuvm: no process'' s
      | Some p \<Rightarrow>
          if kstack (ptable s ! p) = 0 then Panic ''switchuvm: no kstack'' s
          else if pgdir (ptable s ! p) = 0 then Panic ''switchuvm: no pgdir'' s
          else popcli (log (ESwitchuvm p) (pushcli s)))"

text \<open>The body of the scheduler's inner loop for the slot \<open>p\<close>.\<close>

definition scheduler_slot :: "world \<Rightarrow> nat \<Rightarrow> kstate \<Rightarrow> unit result" where
  "scheduler_slot W p s =
     (if state (ptable s ! p) \<noteq> RUNNABLE then Ret () s
      else
        kbind (switchuvm (Some p) (s\<lparr>cpu_proc := Some p\<rparr>))
          (\<lambda>_ s1.
             let s2 = log ESwtch (upd_proc p (\<lambda>r. r\<lparr>state := RUNNING\<rparr>) s1) in
             case run_proc W s2 of
               None \<Rightarrow> Away s2
             | Some s3 \<Rightarrow> Ret () ((log ESwitchkvm s3)\<lparr>cpu_proc := None\<rparr>)))"

fun scheduler_scan :: "world \<Rightarrow> nat list \<Rightarrow> kstate \<Rightarrow> unit result" where
  "scheduler_scan W [] s = Ret () s"
| "scheduler_scan W (p # ps) s = kbind (scheduler_slot W p s) (\<lambda>_. scheduler_scan W ps)"

text \<open>One pass of the scheduler's \<^verbatim>\<open>for(;;)\<close>: \<^verbatim>\<open>sti\<close>, the scan under the table lock.\<close>

definition scheduler_round :: "world \<Rightarrow> kstate \<Rightarrow> unit result" where
  "scheduler_round W s =
     kbind (acquire PTABLE_LOCK (s\<lparr>intr := True\<rparr>))
       (\<lambda>_ s1. kbind (scheduler_scan W [0..<length (ptable s1)] s1)
                  (\<lambda>_. release PTABLE_LOCK))"

section \<open>Trap dispatch (kernel/trap.c, include/traps.h)\<close>

definition T_SYSCALL :: uint where "T_SYSCALL = 64"
definition T_IRQ0 :: uint where "T_IRQ0 = 32"
definition IRQ_TIMER :: uint where "IRQ_TIMER = 0"
definition IRQ_KBD :: uint where "IRQ_KBD = 1"
definition IRQ_COM1 :: uint where "IRQ_COM1 = 4"
definition IRQ_IDE :: uint where "IRQ_IDE = 14"
definition IRQ_SPURIOUS :: uint where "IRQ_SPURIOUS = 31"

text \<open>
  \<^verbatim>\<open>DPL_USER\<close> is defined in mmu.h, which is not among the sources: the user privilege
  level of the x86, ring 3.
\<close>

definition DPL_USER :: "16 word" where "DPL_USER = 3"

text \<open>\<^verbatim>\<open>cpuid\<close> calls \<^verbatim>\<open>mycpu\<close>, which panics when interrupts are enabled.\<close>

definition cpuid :: "kstate \<Rightarrow> nat result" where
  "cpuid s =
     (if intr s then Panic ''mycpu called with interrupts enabled'' s else Ret (cpu_id s) s)"

definition eoi :: "unit \<Rightarrow> kstate \<Rightarrow> unit result" where
  "eoi u s = Ret () (log ELapiceoi s)"

text \<open>
  The first branch of the \<^verbatim>\<open>default\<close> case: the message, whose arguments call \<^verbatim>\<open>cpuid\<close>,
  then \<^verbatim>\<open>panic("trap")\<close>.
\<close>

definition unexpected_trap :: "kstate \<Rightarrow> unit result" where
  "unexpected_trap s =
     kbind (cpuid s) (\<lambda>_ s1. Panic ''trap'' (log (ECprintf ''unexpected trap'') s1))"

text \<open>
  The \<^verbatim>\<open>switch\<close> of \<^verbatim>\<open>trap\<close> on the trap number of the frame at address \<open>t\<close>; its last
  branch is the \<^verbatim>\<open>default\<close>.
\<close>

definition trap_switch :: "world \<Rightarrow> nat \<Rightarrow> kstate \<Rightarrow> unit result" where
  "trap_switch W t s =
     (let n = trapno (tfs s t) in
      if n = T_IRQ0 + IRQ_TIMER then
        kbind (kbind (cpuid s)
                 (\<lambda>i s1.
                    if i = 0
                    then kbind (acquire TICKSLOCK s1)
                           (\<lambda>_ s2. kbind (wakeup TICKS (s2\<lparr>ticks := ticks s2 + 1\<rparr>))
                                      (\<lambda>_. release TICKSLOCK))
                    else Ret () s1))
          eoi
      else if n = T_IRQ0 + IRQ_IDE then kbind (ideintr_op W s) eoi
      else if n = T_IRQ0 + IRQ_IDE + 1 then Ret () s
      else if n = T_IRQ0 + IRQ_KBD then kbind (kbdintr_op W s) eoi
      else if n = T_IRQ0 + IRQ_COM1 then kbind (uartintr_op W s) eoi
      else if n = T_IRQ0 + 7 \<or> n = T_IRQ0 + IRQ_SPURIOUS then
        kbind (cpuid s) (\<lambda>_ s1. eoi () (log (ECprintf ''spurious interrupt'') s1))
      else
        (case cpu_proc s of
           None \<Rightarrow> unexpected_trap s
         | Some p \<Rightarrow>
             if cs (tfs s t) AND 3 = 0 then unexpected_trap s
             else
               kbind (cpuid s)
                 (\<lambda>_ s1. Ret () (upd_proc p (\<lambda>r. r\<lparr>killed := 1\<rparr>)
                                   (log (ECprintf ''kill proc'') s1)))))"

text \<open>
  The checkpoint after the dispatch:
  \<^verbatim>\<open>if(myproc() && myproc()->killed && (tf->cs&3) == DPL_USER) exit();\<close>
\<close>

definition trap_killed :: "world \<Rightarrow> nat \<Rightarrow> kstate \<Rightarrow> unit result" where
  "trap_killed W t s =
     (case cpu_proc s of
        None \<Rightarrow> Ret () s
      | Some p \<Rightarrow>
          if killed (ptable s ! p) \<noteq> 0 \<and> cs (tfs s t) AND 3 = DPL_USER then exit W s
          else Ret () s)"

definition trap_yield :: "world \<Rightarrow> nat \<Rightarrow> kstate \<Rightarrow> unit result" where
  "trap_yield W t s =
     (case cpu_proc s of
        None \<Rightarrow> Ret () s
      | Some p \<Rightarrow>
          if state (ptable s ! p) = RUNNING \<and> trapno (tfs s t) = T_IRQ0 + IRQ_TIMER
          then yield W s else Ret () s)"

text \<open>\<^verbatim>\<open>if(myproc()->killed) exit();\<close> of the system-call branch: no null check.\<close>

definition syscall_killed :: "world \<Rightarrow> kstate \<Rightarrow> unit result" where
  "syscall_killed W s =
     (case cpu_proc s of
        None \<Rightarrow> Panic ''trap'' s
      | Some p \<Rightarrow> if killed (ptable s ! p) \<noteq> 0 then exit W s else Ret () s)"

definition trap :: "world \<Rightarrow> nat \<Rightarrow> kstate \<Rightarrow> unit result" where
  "trap W t s =
     (if trapno (tfs s t) = T_SYSCALL then
        kbind (syscall_killed W s)
          (\<lambda>_ s1.
             case cpu_proc s1 of
               None \<Rightarrow> Panic ''trap'' s1
             | Some p \<Rightarrow>
                 kbind (syscall_op W (upd_proc p (\<lambda>r. r\<lparr>tf := t\<rparr>) s1))
                   (\<lambda>_. syscall_killed W))
      else
        kbind (trap_switch W t s)
          (\<lambda>_ s1. kbind (trap_killed W t s1)
             (\<lambda>_ s2. kbind (trap_yield W t s2)
                (\<lambda>_. trap_killed W t))))"

section \<open>Timed sleep (kernel/sysproc.c)\<close>

text \<open>
  The loop of \<^verbatim>\<open>sys_sleep\<close>. \<open>n\<close> is the argument, an \<^verbatim>\<open>int\<close>; the comparison
  \<^verbatim>\<open>ticks - ticks0 < n\<close> is between an \<^verbatim>\<open>uint\<close> and an \<^verbatim>\<open>int\<close>, so it is unsigned. \<open>fuel\<close>
  bounds the number of tests of the loop condition.
\<close>

fun sys_sleep_loop :: "world \<Rightarrow> nat \<Rightarrow> cint \<Rightarrow> uint \<Rightarrow> kstate \<Rightarrow> cint result" where
  "sys_sleep_loop W 0 n ticks0 s = Timeout s"
| "sys_sleep_loop W (Suc k) n ticks0 s =
     (if ticks s - ticks0 < n then
        (case cpu_proc s of
           None \<Rightarrow> Panic ''trap'' s
         | Some p \<Rightarrow>
             if killed (ptable s ! p) \<noteq> 0
             then kbind (release TICKSLOCK s) (\<lambda>_. Ret (- 1))
             else kbind (sleep W TICKS (Some TICKSLOCK) s)
                    (\<lambda>_. sys_sleep_loop W k n ticks0))
      else kbind (release TICKSLOCK s) (\<lambda>_. Ret 0))"

text \<open>
  \<^verbatim>\<open>sys_sleep\<close>; \<open>arg\<close> is what \<^verbatim>\<open>argint(0, &n)\<close> fetches, \<open>None\<close> when it fails.
\<close>

definition sys_sleep :: "world \<Rightarrow> nat \<Rightarrow> cint option \<Rightarrow> kstate \<Rightarrow> cint result" where
  "sys_sleep W fuel arg s =
     (case arg of
        None \<Rightarrow> Ret (- 1) s
      | Some n \<Rightarrow>
          kbind (acquire TICKSLOCK s) (\<lambda>_ s1. sys_sleep_loop W fuel n (ticks s1) s1))"


section \<open>The channel invariant\<close>

text \<open>
  The invariant as the specification words it: in every slot the channel is non-null
  exactly when the state is \<^verbatim>\<open>SLEEPING\<close>.
\<close>

definition chan_iff_sleeping :: "kstate \<Rightarrow> bool" where
  "chan_iff_sleeping s = list_all (\<lambda>p. (chan p \<noteq> NULL) = (state p = SLEEPING)) (ptable s)"

text \<open>The half of it the code keeps: a slot that is \<^verbatim>\<open>SLEEPING\<close> has a non-null channel.\<close>

definition sleeping_has_chan :: "kstate \<Rightarrow> bool" where
  "sleeping_has_chan s = list_all (\<lambda>p. state p = SLEEPING \<longrightarrow> chan p \<noteq> NULL) (ptable s)"

text \<open>
  What the invariant asks of the collaborators: the scheduler and the other processes
  keep it and switch back into a process only after marking it \<^verbatim>\<open>RUNNING\<close>; a process the
  scheduler runs keeps it; so do the handlers.
\<close>

definition env_ok :: "world \<Rightarrow> bool" where
  "env_ok W =
     ((\<forall>s s'. resume W s = Some s' \<longrightarrow> sleeping_has_chan s \<longrightarrow>
         sleeping_has_chan s' \<and>
         (\<forall>p. cpu_proc s = Some p \<longrightarrow> p < length (ptable s') \<longrightarrow>
            state (ptable s' ! p) = RUNNING)) \<and>
      (\<forall>s s'. run_proc W s = Some s' \<longrightarrow> sleeping_has_chan s \<longrightarrow> sleeping_has_chan s') \<and>
      (\<forall>s. sleeping_has_chan s \<longrightarrow> sleeping_has_chan (state_of (syscall_op W s))) \<and>
      (\<forall>s. sleeping_has_chan s \<longrightarrow> sleeping_has_chan (state_of (ideintr_op W s))) \<and>
      (\<forall>s. sleeping_has_chan s \<longrightarrow> sleeping_has_chan (state_of (kbdintr_op W s))) \<and>
      (\<forall>s. sleeping_has_chan s \<longrightarrow> sleeping_has_chan (state_of (uartintr_op W s))))"

text \<open>
  The operations of the kernel that write a state or a channel, and the state each
  leaves, whether it returns, panics or is switched away for good.
\<close>

datatype kop =
    OpSleep addr "lock option" | OpWakeup addr | OpKill cint | OpSchedule | OpYield
  | OpFork | OpExit | OpWait nat | OpSysSleep nat "cint option" | OpTrap nat

fun run_op :: "world \<Rightarrow> kop \<Rightarrow> kstate \<Rightarrow> kstate" where
  "run_op W (OpSleep c lk) s = state_of (sleep W c lk s)"
| "run_op W (OpWakeup c) s = state_of (wakeup c s)"
| "run_op W (OpKill pd) s = state_of (kill pd s)"
| "run_op W OpSchedule s = state_of (scheduler_round W s)"
| "run_op W OpYield s = state_of (yield W s)"
| "run_op W OpFork s = state_of (fork W s)"
| "run_op W OpExit s = state_of (exit W s)"
| "run_op W (OpWait fuel) s = state_of (wait W fuel s)"
| "run_op W (OpSysSleep fuel arg) s = state_of (sys_sleep W fuel arg s)"
| "run_op W (OpTrap t) s = state_of (trap W t s)"

fun run_ops :: "world \<Rightarrow> kop list \<Rightarrow> kstate \<Rightarrow> kstate" where
  "run_ops W [] s = s"
| "run_ops W (x # xs) s = run_ops W xs (run_op W x s)"

text \<open>\<^verbatim>\<open>sleep\<close> is not called with a null channel.\<close>

fun op_ok :: "kop \<Rightarrow> bool" where
  "op_ok (OpSleep c lk) = (c \<noteq> NULL)"
| "op_ok x = True"

section \<open>Concrete states\<close>

text \<open>
  A zeroed slot of the table, a zeroed trap frame and context, a processor that holds no
  lock and runs no process over an empty table, and collaborators that do the least: a
  process that is switched out is not resumed, the address-space copy fails, the handlers
  return at once. The layout constants are those of a 32-bit kernel linked at 2 GB.
\<close>

definition proc0 :: proc where
  "proc0 = \<lparr>sz = 0, pgdir = 0, kstack = 0, state = UNUSED, pid = 0, parent = None,
            tf = 0, ctx = 0, chan = NULL, killed = 0, ofile = [0, 0], cwd = 0, name = []\<rparr>"

definition tf0 :: trapframe where
  "tf0 = \<lparr>edi = 0, esi = 0, ebp = 0, oesp = 0, ebx = 0, edx = 0, ecx = 0, eax = 0,
          gs = 0, fs = 0, es = 0, ds = 0, trapno = 0, err = 0, eip = 0, cs = 0,
          eflags = 0, esp = 0, ss = 0\<rparr>"

definition ctx0 :: kcontext where
  "ctx0 = \<lparr>ctx_edi = 0, ctx_esi = 0, ctx_ebx = 0, ctx_ebp = 0, ctx_eip = 0\<rparr>"

definition kstate0 :: kstate where
  "kstate0 = \<lparr>ptable = [], locks = {}, ncli = 0, intena = False, intr = False,
              cpu_proc = None, cpu_id = 0, nextpid = 1, initproc = None, ticks = 0,
              freelist = [], use_lock = True, tfs = (\<lambda>_. tf0), ctxs = (\<lambda>_. ctx0),
              stackw = (\<lambda>_. 0), trace = []\<rparr>"

definition world0 :: world where
  "world0 = \<lparr>resume = (\<lambda>_. None), run_proc = (\<lambda>_. None), PGSIZE = 4096,
             KSTACKSIZE = 4096, TFSIZE = 76, kend = 0x80116000, KERNBASE = 0x80000000,
             PHYSTOP = 0xE000000, trapret = 0x80105000, forkret = 0x80103000,
             copyuvm_op = (\<lambda>pg n fl. (0, fl)), freevm_op = (\<lambda>pg fl. pg # fl),
             syscall_op = Ret (), ideintr_op = Ret (), kbdintr_op = Ret (),
             uartintr_op = Ret ()\<rparr>"

text \<open>
  Process 1 runs in slot 0 and holds \<^verbatim>\<open>tickslock\<close>; \<open>sleeper_resumed\<close> is the state in
  which the scheduler switches back into it.
\<close>

definition sleeper_state :: kstate where
  "sleeper_state = kstate0\<lparr>ptable := [proc0\<lparr>state := RUNNING, pid := 1\<rparr>],
                           cpu_proc := Some 0, locks := {TICKSLOCK}, ncli := 1\<rparr>"

definition sleeper_resumed :: kstate where
  "sleeper_resumed =
     kstate0\<lparr>ptable := [proc0\<lparr>state := RUNNING, pid := 1, chan := TICKS\<rparr>],
             cpu_proc := Some 0, locks := {PTABLE_LOCK}, ncli := 1, ticks := 1\<rparr>"

definition sleeper_world :: world where
  "sleeper_world = world0\<lparr>resume := (\<lambda>_. Some sleeper_resumed)\<rparr>"

text \<open>
  Three slots: one sleeps on \<^verbatim>\<open>&ticks\<close>, one sleeps on the address of slot 2, one runs.
\<close>

definition wake_state :: kstate where
  "wake_state =
     kstate0\<lparr>ptable := [proc0\<lparr>state := SLEEPING, pid := 1, chan := TICKS\<rparr>,
                         proc0\<lparr>state := SLEEPING, pid := 2, chan := PROC 2\<rparr>,
                         proc0\<lparr>state := RUNNING, pid := 3\<rparr>],
             cpu_proc := Some 2\<rparr>"


text \<open>
  Process 1 in slot 0 calls \<^verbatim>\<open>wait\<close>. In \<open>wait_state\<close> its child in slot 1 runs and its
  child in slot 2 is a zombie; in \<open>wait_killed_state\<close> the caller has been killed as well;
  in \<open>wait_alone_state\<close> it has no child; in \<open>wait_killed_live_state\<close> it has been killed
  and its only child runs.
\<close>

definition wait_state :: kstate where
  "wait_state =
     kstate0\<lparr>ptable := [proc0\<lparr>state := RUNNING, pid := 1\<rparr>,
                         proc0\<lparr>state := RUNNABLE, pid := 2, parent := Some 0\<rparr>,
                         proc0\<lparr>state := ZOMBIE, pid := 3, parent := Some 0, killed := 1,
                               kstack := 0x80200000, pgdir := 0x80300000,
                               name := ''sh''\<rparr>],
             cpu_proc := Some 0, nextpid := 4\<rparr>"

definition wait_killed_state :: kstate where
  "wait_killed_state = upd_proc 0 (\<lambda>r. r\<lparr>killed := 1\<rparr>) wait_state"


definition wait_killed_live_state :: kstate where
  "wait_killed_live_state =
     kstate0\<lparr>ptable := [proc0\<lparr>state := RUNNING, pid := 1, killed := 1\<rparr>,
                         proc0\<lparr>state := RUNNABLE, pid := 2, parent := Some 0\<rparr>],
             cpu_proc := Some 0\<rparr>"

text \<open>
  Process 1 in slot 0 calls \<^verbatim>\<open>sys_sleep\<close>; each time it is switched out, one timer
  interrupt goes by before the scheduler runs it again, holding the table lock.
\<close>

definition tick_state :: kstate where
  "tick_state = kstate0\<lparr>ptable := [proc0\<lparr>state := RUNNING, pid := 1\<rparr>], cpu_proc := Some 0,
                        ticks := 7\<rparr>"

definition tick_world :: world where
  "tick_world =
     world0\<lparr>resume := (\<lambda>s. Some (upd_proc 0 (\<lambda>r. r\<lparr>state := RUNNING\<rparr>)
                                  (s\<lparr>ticks := ticks s + 1\<rparr>)))\<rparr>"

text \<open>
  Process 3 in slot 2 exits. Its children are in slots 3 (a zombie) and 4 (runnable); its
  parent in slot 1 and \<^verbatim>\<open>initproc\<close> in slot 0 both sleep in \<^verbatim>\<open>wait\<close>, each on its own
  address. In \<open>init_exit_state\<close> it is \<^verbatim>\<open>initproc\<close> itself, with a living child, that calls
  \<^verbatim>\<open>exit\<close>.
\<close>

definition exit_state :: kstate where
  "exit_state =
     kstate0\<lparr>ptable := [proc0\<lparr>state := SLEEPING, pid := 1, chan := PROC 0\<rparr>,
                         proc0\<lparr>state := SLEEPING, pid := 2, parent := Some 0, chan := PROC 1\<rparr>,
                         proc0\<lparr>state := RUNNING, pid := 3, parent := Some 1, ofile := [5, 0],
                               cwd := 9\<rparr>,
                         proc0\<lparr>state := ZOMBIE, pid := 4, parent := Some 2\<rparr>,
                         proc0\<lparr>state := RUNNABLE, pid := 5, parent := Some 2\<rparr>],
             cpu_proc := Some 2, initproc := Some 0, intr := True\<rparr>"

definition init_exit_state :: kstate where
  "init_exit_state =
     kstate0\<lparr>ptable := [proc0\<lparr>state := RUNNING, pid := 1\<rparr>,
                         proc0\<lparr>state := RUNNABLE, pid := 2, parent := Some 0\<rparr>],
             cpu_proc := Some 0, initproc := Some 0, intr := True\<rparr>"

text \<open>
  Process 2 in slot 1 takes a page fault (trap 14) at user privilege: the frame at
  address 100 has the user code selector. In \<open>ktrap_state\<close> the same trap arrives with
  the kernel code selector.
\<close>

definition trap_state :: kstate where
  "trap_state =
     kstate0\<lparr>ptable := [proc0\<lparr>state := SLEEPING, pid := 1, chan := PROC 0\<rparr>,
                         proc0\<lparr>state := RUNNING, pid := 2, parent := Some 0\<rparr>],
             cpu_proc := Some 1, initproc := Some 0,
             tfs := (\<lambda>_. tf0)(100 := tf0\<lparr>trapno := 14, cs := 27\<rparr>)\<rparr>"

definition ktrap_state :: kstate where
  "ktrap_state = trap_state\<lparr>tfs := (\<lambda>_. tf0)(100 := tf0\<lparr>trapno := 14, cs := 8\<rparr>)\<rparr>"

text \<open>
  Process 1 in slot 0 calls \<^verbatim>\<open>fork\<close>; slot 1 is free and the allocator has one page. With
  \<open>world0\<close> the copy of the address space fails; with \<open>fork_world\<close> it gives the page
  directory at \<open>0x80400000\<close>.
\<close>

definition fork_state :: kstate where
  "fork_state =
     kstate0\<lparr>ptable := [proc0\<lparr>state := RUNNING, pid := 1, sz := 4096, pgdir := 0x80300000,
                               kstack := 0x80201000, tf := 0x80201FB4, name := ''init''\<rparr>,
                         proc0],
             cpu_proc := Some 0, initproc := Some 0, nextpid := 2, intr := True,
             freelist := [0x80200000],
             tfs := (\<lambda>_. tf0)(0x80201FB4 := tf0\<lparr>trapno := 64, eax := 1, cs := 27, eip := 16\<rparr>)\<rparr>"


text \<open>
  The only process sleeps in \<^verbatim>\<open>sys_sleep\<close> on \<^verbatim>\<open>&ticks\<close>, no process runs on the processor,
  and a timer interrupt (trap 32) arrives; its frame is at address 0.
\<close>

definition asleep_state :: kstate where
  "asleep_state =
     kstate0\<lparr>ptable := [proc0\<lparr>state := SLEEPING, pid := 1, chan := TICKS\<rparr>], ticks := 7,
             tfs := (\<lambda>_. tf0)(0 := tf0\<lparr>trapno := 32\<rparr>)\<rparr>"

section \<open>Properties\<close>

lemma length_wakeup1 [simp]: "length (ptable (wakeup1 c s)) = length (ptable s)"
  by (simp add: wakeup1_def)

lemma nth_wakeup1:
  "i < length (ptable s) \<Longrightarrow>
   ptable (wakeup1 c s) ! i =
     (if state (ptable s ! i) = SLEEPING \<and> chan (ptable s ! i) = c
      then (ptable s ! i)\<lparr>state := RUNNABLE\<rparr> else ptable s ! i)"
  by (simp add: wakeup1_def)

lemma acquire_ok:
  "l \<notin> locks s \<Longrightarrow>
   acquire l s = Ret () (s\<lparr>ncli := ncli s + 1,
                           intena := (if ncli s = 0 then intr s else intena s),
                           intr := False, locks := insert l (locks s),
                           trace := trace s @ [EAcquire l]\<rparr>)"
  by (simp add: acquire_def pushcli_def holding_def log_def Let_def)

lemma release_ok:
  "l \<in> locks s \<Longrightarrow> \<not> intr s \<Longrightarrow> 1 \<le> ncli s \<Longrightarrow>
   release l s = Ret () (s\<lparr>locks := locks s - {l}, trace := trace s @ [ERelease l],
                           ncli := ncli s - 1, intr := (ncli s = 1 \<and> intena s)\<rparr>)"
  by (simp add: release_def popcli_def holding_def log_def)

text \<open>
  C2. \<^verbatim>\<open>wakeup(chan)\<close>, called by a processor that does not hold the table lock, takes
  the lock, runs the scan \<^verbatim>\<open>wakeup1\<close> while it holds it and releases it. Afterwards every
  slot that was \<^verbatim>\<open>SLEEPING\<close> on \<open>chan\<close> is that slot with state \<^verbatim>\<open>RUNNABLE\<close>, and every
  slot in another state or sleeping on another channel is unchanged.
\<close>

theorem wakeup_wakes_exactly:
  assumes "PTABLE_LOCK \<notin> locks s" and "0 \<le> ncli s"
  shows "\<exists>s1 s'. acquire PTABLE_LOCK s = Ret () s1 \<and> holding PTABLE_LOCK (wakeup1 c s1) \<and>
           release PTABLE_LOCK (wakeup1 c s1) = Ret () s' \<and>
           wakeup c s = Ret () s' \<and>
           length (ptable s') = length (ptable s) \<and>
           (\<forall>i < length (ptable s).
              (state (ptable s ! i) = SLEEPING \<and> chan (ptable s ! i) = c \<longrightarrow>
                 ptable s' ! i = (ptable s ! i)\<lparr>state := RUNNABLE\<rparr>) \<and>
              (state (ptable s ! i) \<noteq> SLEEPING \<or> chan (ptable s ! i) \<noteq> c \<longrightarrow>
                 ptable s' ! i = ptable s ! i))"
  using assms
  by (simp add: wakeup_def acquire_ok release_ok holding_def wakeup1_def)

theorem wakeup_wakes_exactly_witness:
  "ret_val (wakeup TICKS wake_state) = Some () \<and>
   ptable (state_of (wakeup TICKS wake_state)) ! 0 = (ptable wake_state ! 0)\<lparr>state := RUNNABLE\<rparr> \<and>
   ptable (state_of (wakeup TICKS wake_state)) ! 1 = ptable wake_state ! 1 \<and>
   ptable (state_of (wakeup TICKS wake_state)) ! 2 = ptable wake_state ! 2"
proof -
  have h1: "PTABLE_LOCK \<notin> locks wake_state" and h2: "0 \<le> ncli wake_state"
    by (simp_all add: wake_state_def kstate0_def)
  from wakeup_wakes_exactly [OF h1 h2, of TICKS] obtain s' where
    r: "wakeup TICKS wake_state = Ret () s'" and
    a: "\<forall>i < length (ptable wake_state).
          (state (ptable wake_state ! i) = SLEEPING \<and> chan (ptable wake_state ! i) = TICKS \<longrightarrow>
             ptable s' ! i = (ptable wake_state ! i)\<lparr>state := RUNNABLE\<rparr>) \<and>
          (state (ptable wake_state ! i) \<noteq> SLEEPING \<or> chan (ptable wake_state ! i) \<noteq> TICKS \<longrightarrow>
             ptable s' ! i = ptable wake_state ! i)"
    by blast
  have "ptable s' ! 0 = (ptable wake_state ! 0)\<lparr>state := RUNNABLE\<rparr>"
       "ptable s' ! 1 = ptable wake_state ! 1" "ptable s' ! 2 = ptable wake_state ! 2"
    using a by (simp_all add: wake_state_def kstate0_def proc0_def)
  with r show ?thesis by simp
qed

lemma sleep_pre:
  assumes "l \<in> locks s" and "l \<noteq> PTABLE_LOCK \<longrightarrow> PTABLE_LOCK \<notin> locks s"
    and "ncli s = 1" and "\<not> intr s"
  shows "\<exists>sb. (if l \<noteq> PTABLE_LOCK then kbind (acquire PTABLE_LOCK s) (\<lambda>_. release l)
               else Ret () s) = Ret () sb \<and>
              locks sb = (if l \<noteq> PTABLE_LOCK then insert PTABLE_LOCK (locks s - {l})
                          else locks s) \<and>
              trace sb = trace s @ (if l \<noteq> PTABLE_LOCK
                                    then [EAcquire PTABLE_LOCK, ERelease l] else []) \<and>
              ncli sb = 1 \<and> \<not> intr sb \<and> ptable sb = ptable s \<and>
              cpu_proc sb = cpu_proc s \<and> intena sb = intena s"
  using assms by (auto simp add: acquire_ok release_ok)

lemma sched_switch:
  assumes "cpu_proc s = Some p" and "PTABLE_LOCK \<in> locks s" and "ncli s = 1"
    and "\<not> intr s" and "state (ptable s ! p) \<noteq> RUNNING"
  shows "sched W s = (case resume W (log ESwtch s) of
                        None \<Rightarrow> Away (log ESwtch s)
                      | Some s1 \<Rightarrow> Ret () (s1\<lparr>intena := intena s\<rparr>))"
  using assms by (simp add: sched_def holding_def)

text \<open>
  C1. \<^verbatim>\<open>sleep(chan, lk)\<close> by the process running in slot \<open>p\<close>, which holds \<open>lk\<close> and no
  other lock. \<open>s0\<close> is the state handed to the scheduler by \<^verbatim>\<open>swtch\<close>: when \<open>lk\<close> is not
  the table lock, the table lock has been acquired and then \<open>lk\<close> released, in that
  order; the slot's channel is \<open>chan\<close> and its state \<^verbatim>\<open>SLEEPING\<close>. When the scheduler
  switches back in a state \<open>s1\<close> (holding the table lock, as it does), \<^verbatim>\<open>sleep\<close> returns
  with the channel cleared, the table lock released and then \<open>lk\<close> acquired. When \<open>lk\<close> is
  the table lock itself, no lock is released or acquired on either side of the switch.
\<close>

theorem sleep_protocol:
  assumes "cpu_proc s = Some p" and "p < length (ptable s)"
    and "l \<in> locks s" and "l \<noteq> PTABLE_LOCK \<longrightarrow> PTABLE_LOCK \<notin> locks s"
    and "ncli s = 1" and "\<not> intr s"
  shows "\<exists>s0.
           chan (ptable s0 ! p) = c \<and> state (ptable s0 ! p) = SLEEPING \<and>
           trace s0 = trace s @ (if l \<noteq> PTABLE_LOCK then [EAcquire PTABLE_LOCK, ERelease l]
                                 else []) @ [ESwtch] \<and>
           locks s0 = (if l \<noteq> PTABLE_LOCK then insert PTABLE_LOCK (locks s - {l})
                       else locks s) \<and>
           (resume W s0 = None \<longrightarrow> sleep W c (Some l) s = Away s0) \<and>
           (\<forall>s1. resume W s0 = Some s1 \<and> locks s1 = {PTABLE_LOCK} \<and> ncli s1 = 1 \<and>
                  \<not> intr s1 \<and> p < length (ptable s1) \<longrightarrow>
                  (\<exists>s2. sleep W c (Some l) s = Ret () s2 \<and>
                        chan (ptable s2 ! p) = NULL \<and>
                        trace s2 = trace s1 @ (if l \<noteq> PTABLE_LOCK
                                               then [ERelease PTABLE_LOCK, EAcquire l]
                                               else []) \<and>
                        locks s2 = {l}))"
proof -
  from sleep_pre [OF assms(3-6)] obtain sb where
    pre: "(if l \<noteq> PTABLE_LOCK then kbind (acquire PTABLE_LOCK s) (\<lambda>_. release l)
           else Ret () s) = Ret () sb" and
    lk: "locks sb = (if l \<noteq> PTABLE_LOCK then insert PTABLE_LOCK (locks s - {l}) else locks s)" and
    tr: "trace sb = trace s @ (if l \<noteq> PTABLE_LOCK
                               then [EAcquire PTABLE_LOCK, ERelease l] else [])" and
    rest: "ncli sb = 1" "\<not> intr sb" "ptable sb = ptable s" "cpu_proc sb = cpu_proc s"
    by blast
  define sc where "sc = upd_proc p (\<lambda>r. r\<lparr>chan := c, state := SLEEPING\<rparr>) sb"
  define s0 where "s0 = log ESwtch sc"
  have held: "PTABLE_LOCK \<in> locks sb"
    using lk assms(3) by (cases "l = PTABLE_LOCK") simp_all
  have "sched W sc = (case resume W (log ESwtch sc) of
                        None \<Rightarrow> Away (log ESwtch sc)
                      | Some s1 \<Rightarrow> Ret () (s1\<lparr>intena := intena sc\<rparr>))"
    by (rule sched_switch [where p = p])
       (use assms(1,2) rest held in \<open>simp_all add: sc_def upd_proc_def\<close>)
  moreover have "intena sc = intena sb"
    by (simp add: sc_def upd_proc_def)
  ultimately have sch: "sched W sc = (case resume W s0 of
                             None \<Rightarrow> Away s0
                           | Some s1 \<Rightarrow> Ret () (s1\<lparr>intena := intena sb\<rparr>))"
    by (simp add: s0_def split: option.split)
  have "sleep W c (Some l) s =
          kbind (sched W sc)
            (\<lambda>_ s2. let s3 = upd_proc p (\<lambda>r. r\<lparr>chan := NULL\<rparr>) s2 in
                     if l \<noteq> PTABLE_LOCK
                     then kbind (release PTABLE_LOCK s3) (\<lambda>_. acquire l)
                     else Ret () s3)"
    unfolding sc_def sleep_def using assms(1) pre by simp
  then have sw: "sleep W c (Some l) s =
              kbind (case resume W s0 of
                       None \<Rightarrow> Away s0
                     | Some s1 \<Rightarrow> Ret () (s1\<lparr>intena := intena sb\<rparr>))
                (\<lambda>_ s2. let s3 = upd_proc p (\<lambda>r. r\<lparr>chan := NULL\<rparr>) s2 in
                         if l \<noteq> PTABLE_LOCK
                         then kbind (release PTABLE_LOCK s3) (\<lambda>_. acquire l)
                         else Ret () s3)"
    by (simp only: sch)
  have a: "chan (ptable s0 ! p) = c \<and> state (ptable s0 ! p) = SLEEPING"
    using assms(2) rest by (simp add: s0_def sc_def log_def upd_proc_def)
  have b: "trace s0 = trace s @ (if l \<noteq> PTABLE_LOCK then [EAcquire PTABLE_LOCK, ERelease l]
                                 else []) @ [ESwtch]"
    using tr by (simp add: s0_def sc_def log_def upd_proc_def)
  have c: "locks s0 = (if l \<noteq> PTABLE_LOCK then insert PTABLE_LOCK (locks s - {l})
                       else locks s)"
    using lk by (simp add: s0_def sc_def log_def upd_proc_def)
  have d: "resume W s0 = None \<longrightarrow> sleep W c (Some l) s = Away s0"
    by (simp add: sw)
  have e: "\<forall>s1. resume W s0 = Some s1 \<and> locks s1 = {PTABLE_LOCK} \<and> ncli s1 = 1 \<and>
                  \<not> intr s1 \<and> p < length (ptable s1) \<longrightarrow>
                  (\<exists>s2. sleep W c (Some l) s = Ret () s2 \<and>
                        chan (ptable s2 ! p) = NULL \<and>
                        trace s2 = trace s1 @ (if l \<noteq> PTABLE_LOCK
                                               then [ERelease PTABLE_LOCK, EAcquire l]
                                               else []) \<and>
                        locks s2 = {l})"
    using sw
    by (cases "l = PTABLE_LOCK")
       (auto simp add: upd_proc_def acquire_ok release_ok)
  show ?thesis
  proof (intro exI conjI)
    show "chan (ptable s0 ! p) = c" "state (ptable s0 ! p) = SLEEPING"
      using a by simp_all
  qed (rule b c d e)+
qed

theorem sleep_protocol_witness:
  "ret_val (sleep sleeper_world TICKS (Some TICKSLOCK) sleeper_state) = Some () \<and>
   chan (ptable (state_of (sleep sleeper_world TICKS (Some TICKSLOCK) sleeper_state)) ! 0) = NULL \<and>
   trace (state_of (sleep sleeper_world TICKS (Some TICKSLOCK) sleeper_state)) =
     [ERelease PTABLE_LOCK, EAcquire TICKSLOCK] \<and>
   locks (state_of (sleep sleeper_world TICKS (Some TICKSLOCK) sleeper_state)) = {TICKSLOCK}"
proof -
  have h: "cpu_proc sleeper_state = Some 0" "0 < length (ptable sleeper_state)"
    "TICKSLOCK \<in> locks sleeper_state"
    "TICKSLOCK \<noteq> PTABLE_LOCK \<longrightarrow> PTABLE_LOCK \<notin> locks sleeper_state"
    "ncli sleeper_state = 1" "\<not> intr sleeper_state"
    by (simp_all add: sleeper_state_def kstate0_def)
  have r: "resume sleeper_world s0 = Some sleeper_resumed \<and>
           locks sleeper_resumed = {PTABLE_LOCK} \<and> ncli sleeper_resumed = 1 \<and>
           \<not> intr sleeper_resumed \<and> 0 < length (ptable sleeper_resumed)" for s0
    by (simp add: sleeper_world_def world0_def sleeper_resumed_def kstate0_def)
  from sleep_protocol [OF h, where W = sleeper_world and c = TICKS] r show ?thesis
    by (auto simp add: sleeper_resumed_def kstate0_def)
qed

lemma find_first_Some:
  "find_first P xs = Some j \<Longrightarrow> j < length xs \<and> P (xs ! j) \<and> (\<forall>i<j. \<not> P (xs ! i))"
proof (induction xs arbitrary: j)
  case Nil
  then show ?case by simp
next
  case (Cons x xs)
  show ?case
  proof (cases "P x")
    case True
    with Cons.prems show ?thesis by simp
  next
    case False
    with Cons.prems obtain k where k: "find_first P xs = Some k" "j = Suc k"
      by auto
    from Cons.IH [OF k(1)] False k(2) show ?thesis
      by (auto simp add: nth_Cons split: nat.splits)
  qed
qed

lemma find_first_None: "find_first P xs = None \<longleftrightarrow> (\<forall>x\<in>set xs. \<not> P x)"
  by (induction xs) auto

lemma find_first_exists: "(\<exists>j. find_first P xs = Some j) \<longleftrightarrow> (\<exists>x\<in>set xs. P x)"
  using find_first_None [of P xs] by (cases "find_first P xs") auto

lemma kfree_ok:
  assumes "page_ok W v" and "KMEM_LOCK \<notin> locks s" and "1 \<le> ncli s" and "\<not> intr s"
  shows "\<exists>s'. kfree W v s = Ret () s' \<and> ptable s' = ptable s \<and>
              freelist s' = v # freelist s \<and> locks s' = locks s \<and> ncli s' = ncli s \<and>
              \<not> intr s' \<and> cpu_proc s' = cpu_proc s \<and> nextpid s' = nextpid s \<and>
              initproc s' = initproc s \<and> ticks s' = ticks s \<and>
              trace s' = trace s @ (if use_lock s then [EAcquire KMEM_LOCK, ERelease KMEM_LOCK]
                                    else [])"
  using assms
  by (auto simp add: kfree_def junk_fill_def acquire_ok release_ok)

lemma wait_scan_none:
  "\<forall>i\<in>set ps. \<not> (parent (ptable s ! i) = c \<and> state (ptable s ! i) = ZOMBIE) \<Longrightarrow>
   wait_scan W ps c hk s = Ret (None, hk \<or> (\<exists>i\<in>set ps. parent (ptable s ! i) = c)) s"
  by (induction ps arbitrary: hk) auto

lemma wait_scan_first:
  "\<forall>i\<in>set ps. \<not> (parent (ptable s ! i) = c \<and> state (ptable s ! i) = ZOMBIE) \<Longrightarrow>
   parent (ptable s ! j) = c \<Longrightarrow> state (ptable s ! j) = ZOMBIE \<Longrightarrow>
   wait_scan W (ps @ j # qs) c hk s = wait_scan W [j] c True s"
  by (induction ps arbitrary: hk) auto

lemma upt_split:
  assumes "j < n"
  shows "[0..<n] = [0..<j] @ j # [Suc j..<n]"
proof -
  have "[0..<j + (n - j)] = [0..<j] @ [j..<j + (n - j)]"
    by (rule upt_add_eq_append) simp
  with assms show ?thesis by (simp add: upt_conv_Cons)
qed

lemma wait_reap:
  assumes "parent (ptable s ! j) = c" and "state (ptable s ! j) = ZOMBIE"
    and "j < length (ptable s)"
    and "page_ok W (kstack (ptable s ! j))" and "pgdir (ptable s ! j) \<noteq> 0"
    and "PTABLE_LOCK \<in> locks s" and "KMEM_LOCK \<notin> locks s" and "1 \<le> ncli s" and "\<not> intr s"
  shows "\<exists>s'. wait_scan W [j] c hk s = Ret (Some (pid (ptable s ! j)), True) s' \<and>
              ptable s' = (ptable s)[j := (ptable s ! j)\<lparr>kstack := 0, pid := 0, parent := None,
                                       name := [], killed := 0, state := UNUSED\<rparr>] \<and>
              freelist s' = freevm_op W (pgdir (ptable s ! j))
                              (kstack (ptable s ! j) # freelist s) \<and>
              locks s' = locks s - {PTABLE_LOCK} \<and>
              trace s' = trace s @ (if use_lock s then [EAcquire KMEM_LOCK, ERelease KMEM_LOCK]
                                    else []) @ [ERelease PTABLE_LOCK]"
proof -
  from kfree_ok [OF assms(4) assms(7-9)] obtain s1 where
    k: "kfree W (kstack (ptable s ! j)) s = Ret () s1" "ptable s1 = ptable s"
       "freelist s1 = kstack (ptable s ! j) # freelist s" "locks s1 = locks s"
       "ncli s1 = ncli s" "\<not> intr s1"
       "trace s1 = trace s @ (if use_lock s then [EAcquire KMEM_LOCK, ERelease KMEM_LOCK]
                              else [])"
    by blast
  show ?thesis
    using assms(1-3,5,6,8) k
    by (simp add: freevm_def upd_proc_def release_ok)
qed

lemma wait_first_zombie:
  assumes "cpu_proc s = Some c" and "PTABLE_LOCK \<notin> locks s" and "KMEM_LOCK \<notin> locks s"
    and "0 \<le> ncli s"
    and "j < length (ptable s)" and "parent (ptable s ! j) = Some c"
    and "state (ptable s ! j) = ZOMBIE"
    and "\<forall>i<j. \<not> (parent (ptable s ! i) = Some c \<and> state (ptable s ! i) = ZOMBIE)"
    and "page_ok W (kstack (ptable s ! j))" and "pgdir (ptable s ! j) \<noteq> 0"
  shows "\<exists>s'. wait W (Suc k) s = Ret (pid (ptable s ! j)) s' \<and>
              ptable s' = (ptable s)[j := (ptable s ! j)\<lparr>kstack := 0, pid := 0, parent := None,
                                       name := [], killed := 0, state := UNUSED\<rparr>] \<and>
              freelist s' = freevm_op W (pgdir (ptable s ! j))
                              (kstack (ptable s ! j) # freelist s) \<and>
              locks s' = locks s \<and>
              trace s' = trace s @ [EAcquire PTABLE_LOCK] @
                         (if use_lock s then [EAcquire KMEM_LOCK, ERelease KMEM_LOCK] else []) @
                         [ERelease PTABLE_LOCK]"
proof -
  define s1 where "s1 = s\<lparr>ncli := ncli s + 1,
                           intena := (if ncli s = 0 then intr s else intena s),
                           intr := False, locks := insert PTABLE_LOCK (locks s),
                           trace := trace s @ [EAcquire PTABLE_LOCK]\<rparr>"
  have acq: "acquire PTABLE_LOCK s = Ret () s1"
    unfolding s1_def by (rule acquire_ok) (rule assms(2))
  have pt: "ptable s1 = ptable s" by (simp add: s1_def)
  have "\<forall>i\<in>set [0..<j]. \<not> (parent (ptable s1 ! i) = Some c \<and> state (ptable s1 ! i) = ZOMBIE)"
    using assms(8) pt by simp
  then have "wait_scan W ([0..<j] @ j # [Suc j..<length (ptable s1)]) (Some c) False s1 =
             wait_scan W [j] (Some c) True s1"
    using assms(6,7) pt by (intro wait_scan_first) simp_all
  then have scan: "wait_scan W [0..<length (ptable s1)] (Some c) False s1 =
                   wait_scan W [j] (Some c) True s1"
    using upt_split [of j "length (ptable s1)"] assms(5) pt by simp
  have "\<exists>s'. wait_scan W [j] (Some c) True s1 = Ret (Some (pid (ptable s1 ! j)), True) s' \<and>
              ptable s' = (ptable s1)[j := (ptable s1 ! j)\<lparr>kstack := 0, pid := 0,
                             parent := None, name := [], killed := 0, state := UNUSED\<rparr>] \<and>
              freelist s' = freevm_op W (pgdir (ptable s1 ! j))
                              (kstack (ptable s1 ! j) # freelist s1) \<and>
              locks s' = locks s1 - {PTABLE_LOCK} \<and>
              trace s' = trace s1 @ (if use_lock s1 then [EAcquire KMEM_LOCK, ERelease KMEM_LOCK]
                                     else []) @ [ERelease PTABLE_LOCK]"
    by (rule wait_reap) (use assms pt in \<open>simp_all add: s1_def\<close>)
  then obtain s' where
    r: "wait_scan W [j] (Some c) True s1 = Ret (Some (pid (ptable s1 ! j)), True) s'" and
    p: "ptable s' = (ptable s1)[j := (ptable s1 ! j)\<lparr>kstack := 0, pid := 0,
                             parent := None, name := [], killed := 0, state := UNUSED\<rparr>]"
       "freelist s' = freevm_op W (pgdir (ptable s1 ! j)) (kstack (ptable s1 ! j) # freelist s1)"
       "locks s' = locks s1 - {PTABLE_LOCK}"
       "trace s' = trace s1 @ (if use_lock s1 then [EAcquire KMEM_LOCK, ERelease KMEM_LOCK]
                               else []) @ [ERelease PTABLE_LOCK]"
    by blast
  have "wait W (Suc k) s = Ret (pid (ptable s ! j)) s'"
    using assms(1) acq scan r pt by (simp add: wait_def)
  moreover have "locks s' = locks s"
    using p(3) assms(2) by (simp add: s1_def)
  ultimately show ?thesis
    using p by (simp add: s1_def)
qed

lemma wait_nothing_to_reap:
  assumes "cpu_proc s = Some c" and "PTABLE_LOCK \<notin> locks s" and "0 \<le> ncli s"
    and "\<forall>r\<in>set (ptable s). \<not> (parent r = Some c \<and> state r = ZOMBIE)"
    and "(\<forall>r\<in>set (ptable s). parent r \<noteq> Some c) \<or> killed (ptable s ! c) \<noteq> 0"
  shows "\<exists>s'. wait W (Suc k) s = Ret (- 1) s' \<and> ptable s' = ptable s \<and>
              locks s' = locks s \<and>
              trace s' = trace s @ [EAcquire PTABLE_LOCK, ERelease PTABLE_LOCK]"
proof -
  define s1 where "s1 = s\<lparr>ncli := ncli s + 1,
                           intena := (if ncli s = 0 then intr s else intena s),
                           intr := False, locks := insert PTABLE_LOCK (locks s),
                           trace := trace s @ [EAcquire PTABLE_LOCK]\<rparr>"
  have acq: "acquire PTABLE_LOCK s = Ret () s1"
    unfolding s1_def by (rule acquire_ok) (rule assms(2))
  have pt: "ptable s1 = ptable s" by (simp add: s1_def)
  have "\<forall>i\<in>set [0..<length (ptable s1)].
          \<not> (parent (ptable s1 ! i) = Some c \<and> state (ptable s1 ! i) = ZOMBIE)"
    using assms(4) pt by simp
  from wait_scan_none [OF this, of W False]
  have scan: "wait_scan W [0..<length (ptable s1)] (Some c) False s1 =
                Ret (None, \<exists>i\<in>set [0..<length (ptable s1)]. parent (ptable s1 ! i) = Some c) s1"
    by simp
  have hk: "\<not> (\<exists>i\<in>set [0..<length (ptable s1)]. parent (ptable s1 ! i) = Some c) \<or>
            killed (ptable s1 ! c) \<noteq> 0"
    using assms(5) pt by (auto simp add: all_set_conv_all_nth)
  have rel: "release PTABLE_LOCK s1 =
               Ret () (s1\<lparr>locks := locks s1 - {PTABLE_LOCK},
                          trace := trace s1 @ [ERelease PTABLE_LOCK],
                          ncli := ncli s1 - 1, intr := (ncli s1 = 1 \<and> intena s1)\<rparr>)"
    by (rule release_ok) (use assms(3) in \<open>simp_all add: s1_def\<close>)
  have "wait W (Suc k) s =
          Ret (- 1) (s1\<lparr>locks := locks s1 - {PTABLE_LOCK},
                        trace := trace s1 @ [ERelease PTABLE_LOCK],
                        ncli := ncli s1 - 1, intr := (ncli s1 = 1 \<and> intena s1)\<rparr>)"
    using assms(1) acq scan hk rel by (auto simp add: wait_def)
  then show ?thesis
    using assms(2) by (simp add: s1_def)
qed




text \<open>
  C10, as the code has it. \<^verbatim>\<open>wait()\<close> by a process whose \<open>killed\<close> flag is set and that
  has no child in state \<^verbatim>\<open>ZOMBIE\<close> returns -1 on the first pass, whether or not it has
  living children: no slot is changed and there is no switch to the scheduler. (A child
  in state \<^verbatim>\<open>ZOMBIE\<close> is found by the scan, which comes before the test of the flag.)
\<close>

theorem wait_killed_fails:
  assumes "cpu_proc s = Some c" and "PTABLE_LOCK \<notin> locks s" and "0 \<le> ncli s"
    and "killed (ptable s ! c) \<noteq> 0"
    and "\<forall>r\<in>set (ptable s). \<not> (parent r = Some c \<and> state r = ZOMBIE)"
  shows "\<exists>s'. wait W (Suc k) s = Ret (- 1) s' \<and> ptable s' = ptable s \<and>
              trace s' = trace s @ [EAcquire PTABLE_LOCK, ERelease PTABLE_LOCK]"
proof -
  have "\<exists>s'. wait W (Suc k) s = Ret (- 1) s' \<and> ptable s' = ptable s \<and>
              locks s' = locks s \<and>
              trace s' = trace s @ [EAcquire PTABLE_LOCK, ERelease PTABLE_LOCK]"
    by (rule wait_nothing_to_reap) (use assms in auto)
  then show ?thesis by blast
qed

theorem wait_killed_fails_witness:
  "(\<exists>r\<in>set (ptable wait_killed_live_state). parent r = Some 0) \<and>
   ret_val (wait world0 1 wait_killed_live_state) = Some (- 1) \<and>
   ptable (state_of (wait world0 1 wait_killed_live_state)) = ptable wait_killed_live_state"
proof -
  have h: "cpu_proc wait_killed_live_state = Some 0"
    "PTABLE_LOCK \<notin> locks wait_killed_live_state" "0 \<le> ncli wait_killed_live_state"
    "killed (ptable wait_killed_live_state ! 0) \<noteq> 0"
    "\<forall>r\<in>set (ptable wait_killed_live_state). \<not> (parent r = Some 0 \<and> state r = ZOMBIE)"
    by (simp_all add: wait_killed_live_state_def kstate0_def proc0_def)
  from wait_killed_fails [OF h, of world0 0] obtain s' where
    "wait world0 (Suc 0) wait_killed_live_state = Ret (- 1) s'"
    "ptable s' = ptable wait_killed_live_state"
    by auto
  then show ?thesis
    by (simp add: wait_killed_live_state_def kstate0_def proc0_def)
qed

text \<open>
  The claim C10 as it is written fails: the caller of \<open>wait_killed_state\<close> has been killed
  and has a zombie child, and \<^verbatim>\<open>wait\<close> reaps the child and returns its identifier 3.
\<close>

theorem wait_killed_counterexample:
  "killed (ptable wait_killed_state ! 0) = 1 \<and>
   ret_val (wait world0 1 wait_killed_state) = Some 3 \<and>
   state (ptable (state_of (wait world0 1 wait_killed_state)) ! 2) = UNUSED"
proof -
  have h: "cpu_proc wait_killed_state = Some 0" "PTABLE_LOCK \<notin> locks wait_killed_state"
    "KMEM_LOCK \<notin> locks wait_killed_state" "0 \<le> ncli wait_killed_state"
    "2 < length (ptable wait_killed_state)" "parent (ptable wait_killed_state ! 2) = Some 0"
    "state (ptable wait_killed_state ! 2) = ZOMBIE"
    "\<forall>i<2. \<not> (parent (ptable wait_killed_state ! i) = Some 0 \<and>
                 state (ptable wait_killed_state ! i) = ZOMBIE)"
    "page_ok world0 (kstack (ptable wait_killed_state ! 2))"
    "pgdir (ptable wait_killed_state ! 2) \<noteq> 0"
    by (simp_all add: wait_killed_state_def upd_proc_def wait_state_def kstate0_def proc0_def
          world0_def V2P_def less_2_cases_iff)
  from wait_first_zombie [OF h, of 0] obtain s' where
    "wait world0 (Suc 0) wait_killed_state = Ret (pid (ptable wait_killed_state ! 2)) s'"
    "ptable s' = (ptable wait_killed_state)[2 := (ptable wait_killed_state ! 2)\<lparr>kstack := 0,
                   pid := 0, parent := None, name := [], killed := 0, state := UNUSED\<rparr>]"
    by auto
  then show ?thesis
    by (simp add: wait_killed_state_def upd_proc_def wait_state_def kstate0_def proc0_def)
qed

lemma kbind_Ret:
  "kbind m f = Ret a s' \<longleftrightarrow> (\<exists>b s1. m = Ret b s1 \<and> f b s1 = Ret a s')"
  by (cases m) auto

lemma popcli_ticks: "popcli s = Ret u s' \<Longrightarrow> ticks s' = ticks s"
  by (auto simp add: popcli_def split: if_splits)

lemma release_ticks: "release l s = Ret u s' \<Longrightarrow> ticks s' = ticks s"
  by (auto simp add: release_def log_def split: if_splits dest!: popcli_ticks)

lemma acquire_ticks: "acquire l s = Ret u s' \<Longrightarrow> ticks s' = ticks s"
  by (auto simp add: acquire_def pushcli_def log_def Let_def split: if_splits)

lemma sys_sleep_loop_ret:
  "sys_sleep_loop W k n t0 s = Ret 0 s' \<Longrightarrow> \<not> ticks s' - t0 < n"
proof (induction k arbitrary: s)
  case 0
  then show ?case by simp
next
  case (Suc k)
  show ?case
  proof (cases "ticks s - t0 < n")
    case False
    with Suc.prems obtain u where "release TICKSLOCK s = Ret u s'"
      by (auto simp add: kbind_Ret)
    from release_ticks [OF this] False show ?thesis by simp
  next
    case True
    with Suc.prems obtain p where p: "cpu_proc s = Some p"
      by (cases "cpu_proc s") auto
    show ?thesis
    proof (cases "killed (ptable s ! p) \<noteq> 0")
      case True
      with Suc.prems \<open>ticks s - t0 < n\<close> p show ?thesis
        by (auto simp add: kbind_Ret)
    next
      case False
      with Suc.prems \<open>ticks s - t0 < n\<close> p obtain s2 where
        "sys_sleep_loop W k n t0 s2 = Ret 0 s'"
        by (auto simp add: kbind_Ret)
      then show ?thesis by (rule Suc.IH)
    qed
  qed
qed

text \<open>
  C9. \<^verbatim>\<open>sys_sleep\<close> with argument \<open>n\<close>: when it returns 0 the tick counter is at least \<open>n\<close>
  past its value at the call, in the unsigned 32-bit comparison of the source and so
  also for \<open>n\<close> read as a signed integer. Whenever the loop condition is tested with fewer
  than \<open>n\<close> ticks elapsed by a process that has not been killed, the process does not
  return: it calls \<^verbatim>\<open>sleep(&ticks, &tickslock)\<close> and tests again when that returns.
\<close>

theorem sys_sleep_not_early:
  "(sys_sleep W fuel (Some n) s = Ret 0 s' \<longrightarrow>
      n \<le> ticks s' - ticks s \<and> sint n \<le> uint (ticks s' - ticks s)) \<and>
   (cpu_proc s1 = Some p \<and> killed (ptable s1 ! p) = 0 \<and> ticks s1 - ticks0 < n \<longrightarrow>
      sys_sleep_loop W (Suc k) n ticks0 s1 =
        kbind (sleep W TICKS (Some TICKSLOCK) s1) (\<lambda>_. sys_sleep_loop W k n ticks0))"
proof (intro conjI impI)
  assume r: "sys_sleep W fuel (Some n) s = Ret 0 s'"
  then obtain u s2 where a: "acquire TICKSLOCK s = Ret u s2"
    and l: "sys_sleep_loop W fuel n (ticks s2) s2 = Ret 0 s'"
    by (auto simp add: sys_sleep_def kbind_Ret)
  from sys_sleep_loop_ret [OF l] acquire_ticks [OF a]
  show "n \<le> ticks s' - ticks s" by simp
  moreover have "- (2 ^ (LENGTH(32) - Suc 0)) \<le> uint n"
    by (rule order_trans [OF _ uint_ge_0]) simp
  then have "sint n \<le> uint n"
    by (simp only: sint_uint signed_take_bit_int_less_eq_self_iff)
  ultimately show "sint n \<le> uint (ticks s' - ticks s)"
    by (simp add: word_le_def)
next
  assume "cpu_proc s1 = Some p \<and> killed (ptable s1 ! p) = 0 \<and> ticks s1 - ticks0 < n"
  then show "sys_sleep_loop W (Suc k) n ticks0 s1 =
        kbind (sleep W TICKS (Some TICKSLOCK) s1) (\<lambda>_. sys_sleep_loop W k n ticks0)"
    by simp
qed

lemma ret_val_Some: "ret_val r = Some a \<Longrightarrow> r = Ret a (state_of r)"
  by (cases r) auto

lemma tick_run:
  "ret_val (sys_sleep tick_world 3 (Some 2) tick_state) = Some 0"
  "ticks (state_of (sys_sleep tick_world 3 (Some 2) tick_state)) = 9"
  "sys_sleep tick_world 2 (Some 2) tick_state = Timeout (state_of (sys_sleep tick_world 2 (Some 2) tick_state))"
  by (simp_all add: sys_sleep_def acquire_def pushcli_def sleep_def sched_def release_def
        popcli_def tick_world_def world0_def tick_state_def kstate0_def proc0_def upd_proc_def
        log_def holding_def Let_def numeral_3_eq_3 numeral_2_eq_2)

text \<open>
  With one tick per switch and two ticks asked for, the call returns 0 on the third test
  of the loop condition, the counter at 9 from 7; two tests are not enough.
\<close>

theorem sys_sleep_not_early_witness:
  "ret_val (sys_sleep tick_world 3 (Some 2) tick_state) = Some 0 \<and>
   2 \<le> ticks (state_of (sys_sleep tick_world 3 (Some 2) tick_state)) - ticks tick_state \<and>
   ticks (state_of (sys_sleep tick_world 3 (Some 2) tick_state)) = 9 \<and>
   ret_val (sys_sleep tick_world 2 (Some 2) tick_state) = None \<and>
   sys_sleep_loop tick_world (Suc 2) 2 7 (tick_state\<lparr>locks := {TICKSLOCK}, ncli := 1\<rparr>) =
     kbind (sleep tick_world TICKS (Some TICKSLOCK) (tick_state\<lparr>locks := {TICKSLOCK}, ncli := 1\<rparr>))
       (\<lambda>_. sys_sleep_loop tick_world 2 2 7)"
proof -
  let ?s1 = "tick_state\<lparr>locks := {TICKSLOCK}, ncli := 1\<rparr>"
  have a: "sys_sleep tick_world 3 (Some 2) tick_state =
          Ret 0 (state_of (sys_sleep tick_world 3 (Some 2) tick_state))"
    by (rule ret_val_Some) (rule tick_run(1))
  have b: "cpu_proc ?s1 = Some 0 \<and> killed (ptable ?s1 ! 0) = 0 \<and> ticks ?s1 - 7 < 2"
    by (simp add: tick_state_def kstate0_def proc0_def)
  note th = sys_sleep_not_early [of tick_world 3 2 tick_state
      "state_of (sys_sleep tick_world 3 (Some 2) tick_state)" ?s1 0 7 2]
  from th a have "2 \<le> ticks (state_of (sys_sleep tick_world 3 (Some 2) tick_state)) - ticks tick_state"
    by blast
  moreover from th b have "sys_sleep_loop tick_world (Suc 2) 2 7 ?s1 =
     kbind (sleep tick_world TICKS (Some TICKSLOCK) ?s1) (\<lambda>_. sys_sleep_loop tick_world 2 2 7)"
    by blast
  moreover have "ret_val (sys_sleep tick_world 2 (Some 2) tick_state) = None"
    by (subst tick_run(3)) simp
  ultimately show ?thesis
    using tick_run(1,2) by simp
qed

lemma reparent_step_frame:
  "\<exists>pt. (if parent (ptable s ! i) = c
         then (let s1 = upd_proc i (\<lambda>r. r\<lparr>parent := initproc s\<rparr>) s in
               if state (ptable s1 ! i) = ZOMBIE then wakeup1 (chan_of (initproc s1)) s1
               else s1)
         else s) = s\<lparr>ptable := pt\<rparr>"
proof (cases "parent (ptable s ! i) = c")
  case False
  have "s = s\<lparr>ptable := ptable s\<rparr>" by simp
  with False show ?thesis by (auto intro: exI [of _ "ptable s"])
next
  case True
  then show ?thesis
    by (auto simp add: upd_proc_def wakeup1_def Let_def)
qed

lemma reparent_frame: "\<exists>pt. reparent ps c s = s\<lparr>ptable := pt\<rparr>"
proof (induction ps arbitrary: s)
  case Nil
  have "s = s\<lparr>ptable := ptable s\<rparr>" by simp
  then show ?case by (auto intro: exI [of _ "ptable s"])
next
  case (Cons i ps)
  let ?s' = "(if parent (ptable s ! i) = c
        then (let s1 = upd_proc i (\<lambda>r. r\<lparr>parent := initproc s\<rparr>) s in
              if state (ptable s1 ! i) = ZOMBIE then wakeup1 (chan_of (initproc s1)) s1
              else s1)
        else s)"
  from reparent_step_frame [of s i c] obtain pt' where a: "?s' = s\<lparr>ptable := pt'\<rparr>" ..
  from Cons.IH [of ?s'] obtain pt where "reparent ps c ?s' = ?s'\<lparr>ptable := pt\<rparr>" ..
  with a have "reparent (i # ps) c s = s\<lparr>ptable := pt\<rparr>" by simp
  then show ?case ..
qed

lemma reparent_nth:
  assumes "distinct ps" and "\<forall>i\<in>set ps. i < length (ptable s)" and "k < length (ptable s)"
  shows "length (ptable (reparent ps c s)) = length (ptable s) \<and>
         ptable (reparent ps c s) ! k =
           (ptable s ! k)\<lparr>parent := (if k \<in> set ps \<and> parent (ptable s ! k) = c
                                     then initproc s else parent (ptable s ! k)),
                          state := (if state (ptable s ! k) = SLEEPING \<and>
                                       chan (ptable s ! k) = chan_of (initproc s) \<and>
                                       (\<exists>j\<in>set ps. parent (ptable s ! j) = c \<and>
                                                    state (ptable s ! j) = ZOMBIE)
                                    then RUNNABLE else state (ptable s ! k))\<rparr>"
  using assms
proof (induction ps arbitrary: s)
  case Nil
  then show ?case by simp
next
  case (Cons i ps)
  define s' where "s' = (if parent (ptable s ! i) = c
        then (let s1 = upd_proc i (\<lambda>r. r\<lparr>parent := initproc s\<rparr>) s in
              if state (ptable s1 ! i) = ZOMBIE then wakeup1 (chan_of (initproc s1)) s1
              else s1)
        else s)"
  have i: "i < length (ptable s)" "i \<notin> set ps" using Cons.prems by simp_all
  have len: "length (ptable s') = length (ptable s)"
    by (simp add: s'_def upd_proc_def Let_def)
  have init: "initproc s' = initproc s"
    by (simp add: s'_def upd_proc_def wakeup1_def Let_def)
  have step: "ptable s' ! m =
            (ptable s ! m)\<lparr>parent := (if m = i \<and> parent (ptable s ! i) = c
                                     then initproc s else parent (ptable s ! m)),
                          state := (if parent (ptable s ! i) = c \<and> state (ptable s ! i) = ZOMBIE \<and>
                                       state (ptable s ! m) = SLEEPING \<and>
                                       chan (ptable s ! m) = chan_of (initproc s)
                                    then RUNNABLE else state (ptable s ! m))\<rparr>"
    if "m < length (ptable s)" for m
    using that i(1)
    by (auto simp add: s'_def upd_proc_def wakeup1_def Let_def nth_list_update)
  have zomb: "(parent (ptable s' ! j) = c \<and> state (ptable s' ! j) = ZOMBIE) =
              (parent (ptable s ! j) = c \<and> state (ptable s ! j) = ZOMBIE)"
    if "j \<in> set ps" for j
  proof -
    from that Cons.prems have "j < length (ptable s)" "j \<noteq> i" by auto
    then show ?thesis by (auto simp add: step)
  qed
  have "distinct ps" "\<forall>i\<in>set ps. i < length (ptable s')" "k < length (ptable s')"
    using Cons.prems len by simp_all
  from Cons.IH [OF this]
  have ih: "length (ptable (reparent ps c s')) = length (ptable s')"
    "ptable (reparent ps c s') ! k =
           (ptable s' ! k)\<lparr>parent := (if k \<in> set ps \<and> parent (ptable s' ! k) = c
                                     then initproc s' else parent (ptable s' ! k)),
                          state := (if state (ptable s' ! k) = SLEEPING \<and>
                                       chan (ptable s' ! k) = chan_of (initproc s') \<and>
                                       (\<exists>j\<in>set ps. parent (ptable s' ! j) = c \<and>
                                                    state (ptable s' ! j) = ZOMBIE)
                                    then RUNNABLE else state (ptable s' ! k))\<rparr>"
    by simp_all
  define Z where "Z = (\<exists>j\<in>set ps. parent (ptable s ! j) = c \<and> state (ptable s ! j) = ZOMBIE)"
  have ex: "(\<exists>j\<in>set ps. parent (ptable s' ! j) = c \<and> state (ptable s' ! j) = ZOMBIE) = Z"
    unfolding Z_def using zomb by blast
  have ex': "(\<exists>j\<in>set (i # ps). parent (ptable s ! j) = c \<and> state (ptable s ! j) = ZOMBIE) =
             (parent (ptable s ! i) = c \<and> state (ptable s ! i) = ZOMBIE \<or> Z)"
    unfolding Z_def by simp
  have r: "reparent (i # ps) c s = reparent ps c s'"
    by (simp add: s'_def)
  have k: "k < length (ptable s)" by (rule Cons.prems(3))
  note sk = step [OF k]
  have P: "(if k \<in> set ps \<and> parent (ptable s' ! k) = c
            then initproc s else parent (ptable s' ! k)) =
           (if k \<in> set (i # ps) \<and> parent (ptable s ! k) = c
            then initproc s else parent (ptable s ! k))"
    using i(2) sk by (cases "k = i") simp_all
  have S: "(if state (ptable s' ! k) = SLEEPING \<and> chan (ptable s' ! k) = chan_of (initproc s) \<and> Z
            then RUNNABLE else state (ptable s' ! k)) =
           (if state (ptable s ! k) = SLEEPING \<and> chan (ptable s ! k) = chan_of (initproc s) \<and>
               (parent (ptable s ! i) = c \<and> state (ptable s ! i) = ZOMBIE \<or> Z)
            then RUNNABLE else state (ptable s ! k))"
    by (cases "parent (ptable s ! i) = c \<and> state (ptable s ! i) = ZOMBIE"; cases Z)
       (auto simp add: sk)
  have "ptable (reparent (i # ps) c s) ! k =
          (ptable s' ! k)\<lparr>parent := (if k \<in> set (i # ps) \<and> parent (ptable s ! k) = c
                                      then initproc s else parent (ptable s ! k)),
                          state := (if state (ptable s ! k) = SLEEPING \<and>
                                       chan (ptable s ! k) = chan_of (initproc s) \<and>
                                       (parent (ptable s ! i) = c \<and>
                                        state (ptable s ! i) = ZOMBIE \<or> Z)
                                    then RUNNABLE else state (ptable s ! k))\<rparr>"
    unfolding r ih(2) ex init P S ..
  also have "\<dots> = (ptable s ! k)\<lparr>parent := (if k \<in> set (i # ps) \<and> parent (ptable s ! k) = c
                                      then initproc s else parent (ptable s ! k)),
                          state := (if state (ptable s ! k) = SLEEPING \<and>
                                       chan (ptable s ! k) = chan_of (initproc s) \<and>
                                       (parent (ptable s ! i) = c \<and>
                                        state (ptable s ! i) = ZOMBIE \<or> Z)
                                    then RUNNABLE else state (ptable s ! k))\<rparr>"
    unfolding sk by simp
  finally show ?case
    unfolding ex' using ih(1) len r by simp
qed

lemma exit_no_ret: "exit W s \<noteq> Ret u s'"
  by (cases "cpu_proc s")
     (auto simp add: exit_def Let_def kbind_Ret)

lemma kbind_no_ret:
  fixes m :: "unit result"
  assumes "\<And>u s'. m \<noteq> Ret u s'"
  shows "kbind m f = m"
  using assms by (cases m) auto

lemma exit_switch:
  assumes "cpu_proc s = Some c" and "c < length (ptable s)" and "initproc s \<noteq> Some c"
    and "PTABLE_LOCK \<notin> locks s" and "ncli s = 0"
  shows "\<exists>s7. exit W s = (case resume W (log ESwtch s7) of
                             None \<Rightarrow> Away (log ESwtch s7)
                           | Some s8 \<Rightarrow> Panic ''zombie exit'' (s8\<lparr>intena := intena s7\<rparr>)) \<and>
              length (ptable s7) = length (ptable s) \<and>
              initproc s7 = initproc s \<and>
              (\<forall>i<length (ptable s).
                 parent (ptable s7 ! i) =
                   (if parent (ptable s ! i) = Some c then initproc s
                    else parent (ptable s ! i)) \<and>
                 pid (ptable s7 ! i) = pid (ptable s ! i) \<and>
                 chan (ptable s7 ! i) = chan (ptable s ! i) \<and>
                 state (ptable s7 ! i) =
                   (if i = c then ZOMBIE
                    else if state (ptable s ! i) = SLEEPING \<and>
                            (chan (ptable s ! i) = chan_of (parent (ptable s ! c)) \<or>
                             chan (ptable s ! i) = chan_of (initproc s) \<and>
                             (\<exists>j<length (ptable s). parent (ptable s ! j) = Some c \<and>
                                                     state (ptable s ! j) = ZOMBIE))
                    then RUNNABLE else state (ptable s ! i)))"
proof -
  define s3 where
    "s3 = upd_proc c (\<lambda>r. r\<lparr>cwd := 0\<rparr>)
            (log_all [EBeginOp,
                      EIput (cwd (ptable (log_all (map EFileclose
                                 (filter (\<lambda>f. f \<noteq> 0) (ofile (ptable s ! c))))
                               (upd_proc c (\<lambda>r. r\<lparr>ofile := map (\<lambda>_. 0) (ofile r)\<rparr>) s)) ! c)),
                      EEndOp]
               (log_all (map EFileclose (filter (\<lambda>f. f \<noteq> 0) (ofile (ptable s ! c))))
                  (upd_proc c (\<lambda>r. r\<lparr>ofile := map (\<lambda>_. 0) (ofile r)\<rparr>) s)))"
  define s4 where "s4 = s3\<lparr>ncli := ncli s3 + 1,
                            intena := (if ncli s3 = 0 then intr s3 else intena s3),
                            intr := False, locks := insert PTABLE_LOCK (locks s3),
                            trace := trace s3 @ [EAcquire PTABLE_LOCK]\<rparr>"
  define s5 where "s5 = wakeup1 (chan_of (parent (ptable s4 ! c))) s4"
  define s6 where "s6 = reparent [0..<length (ptable s5)] (Some c) s5"
  define s7 where "s7 = upd_proc c (\<lambda>r. r\<lparr>state := ZOMBIE\<rparr>) s6"
  have f3: "locks s3 = locks s" "ncli s3 = ncli s" "cpu_proc s3 = cpu_proc s"
    "initproc s3 = initproc s" "length (ptable s3) = length (ptable s)"
    by (simp_all add: s3_def upd_proc_def log_all_def)
  have p3: "ptable s3 ! i = (if i = c then (ptable s ! c)\<lparr>ofile := map (\<lambda>_. 0) (ofile (ptable s ! c)),
                                                          cwd := 0\<rparr> else ptable s ! i)"
    if "i < length (ptable s)" for i
    using that assms(2) by (simp add: s3_def upd_proc_def log_all_def nth_list_update)
  have acq: "acquire PTABLE_LOCK s3 = Ret () s4"
    unfolding s4_def by (rule acquire_ok) (simp add: f3 assms(4))
  have f4: "locks s4 = insert PTABLE_LOCK (locks s)" "ncli s4 = 1" "cpu_proc s4 = Some c"
    "initproc s4 = initproc s" "ptable s4 = ptable s3" "\<not> intr s4"
    using assms(1,5) by (simp_all add: s4_def f3)
  have f5: "locks s5 = locks s4" "ncli s5 = ncli s4" "cpu_proc s5 = cpu_proc s4"
    "initproc s5 = initproc s4" "length (ptable s5) = length (ptable s)" "intr s5 = intr s4"
    by (simp_all add: s5_def wakeup1_def f4 f3)
  from reparent_frame [of "[0..<length (ptable s5)]" "Some c" s5]
  obtain pt where s6: "s6 = s5\<lparr>ptable := pt\<rparr>" unfolding s6_def ..
  have f7: "locks s7 = locks s5" "ncli s7 = ncli s5" "cpu_proc s7 = cpu_proc s5"
    "initproc s7 = initproc s5" "intr s7 = intr s5"
    by (simp_all add: s7_def upd_proc_def s6)
  have n6: "length (ptable s6) = length (ptable s5) \<and>
         ptable s6 ! k =
           (ptable s5 ! k)\<lparr>parent := (if k \<in> set [0..<length (ptable s5)] \<and>
                                        parent (ptable s5 ! k) = Some c
                                     then initproc s5 else parent (ptable s5 ! k)),
                          state := (if state (ptable s5 ! k) = SLEEPING \<and>
                                       chan (ptable s5 ! k) = chan_of (initproc s5) \<and>
                                       (\<exists>j\<in>set [0..<length (ptable s5)].
                                           parent (ptable s5 ! j) = Some c \<and>
                                           state (ptable s5 ! j) = ZOMBIE)
                                    then RUNNABLE else state (ptable s5 ! k))\<rparr>"
    if "k < length (ptable s)" for k
    unfolding s6_def by (rule reparent_nth) (use that f5 in simp_all)
  have len7: "length (ptable s7) = length (ptable s)"
    using n6 [OF assms(2)] f5 by (simp add: s7_def upd_proc_def)
  have p5: "ptable s5 ! i =
              (if state (ptable s3 ! i) = SLEEPING \<and>
                  chan (ptable s3 ! i) = chan_of (parent (ptable s3 ! c))
               then (ptable s3 ! i)\<lparr>state := RUNNABLE\<rparr> else ptable s3 ! i)"
    if "i < length (ptable s)" for i
    unfolding s5_def using that by (simp add: nth_wakeup1 f4 f3)
  have z: "(\<exists>j\<in>set [0..<length (ptable s5)].
              parent (ptable s5 ! j) = Some c \<and> state (ptable s5 ! j) = ZOMBIE) =
           (\<exists>j<length (ptable s). parent (ptable s ! j) = Some c \<and> state (ptable s ! j) = ZOMBIE)"
  proof -
    have "(parent (ptable s5 ! j) = Some c \<and> state (ptable s5 ! j) = ZOMBIE) =
          (parent (ptable s ! j) = Some c \<and> state (ptable s ! j) = ZOMBIE)"
      if "j < length (ptable s)" for j
      using that assms(2) by (cases "j = c") (auto simp add: p5 p3)
    then show ?thesis by (auto simp add: f5)
  qed
  have ex: "exit W s = kbind (sched W s7) (\<lambda>_ s8. Panic ''zombie exit'' s8)"
    using assms(1,3) acq
    unfolding s7_def s6_def s5_def s3_def exit_def
    by (simp add: Let_def)
  have "sched W s7 = (case resume W (log ESwtch s7) of
                        None \<Rightarrow> Away (log ESwtch s7)
                      | Some s1 \<Rightarrow> Ret () (s1\<lparr>intena := intena s7\<rparr>))"
    by (rule sched_switch [where p = c])
       (use assms(2) len7 in \<open>simp_all add: f7 f5 f4\<close>, simp add: s7_def upd_proc_def)
  with ex have a: "exit W s = (case resume W (log ESwtch s7) of
                             None \<Rightarrow> Away (log ESwtch s7)
                           | Some s8 \<Rightarrow> Panic ''zombie exit'' (s8\<lparr>intena := intena s7\<rparr>))"
    by (simp split: option.split)
  have b: "parent (ptable s7 ! i) =
                   (if parent (ptable s ! i) = Some c then initproc s
                    else parent (ptable s ! i)) \<and>
           pid (ptable s7 ! i) = pid (ptable s ! i) \<and>
           chan (ptable s7 ! i) = chan (ptable s ! i) \<and>
           state (ptable s7 ! i) =
                   (if i = c then ZOMBIE
                    else if state (ptable s ! i) = SLEEPING \<and>
                            (chan (ptable s ! i) = chan_of (parent (ptable s ! c)) \<or>
                             chan (ptable s ! i) = chan_of (initproc s) \<and>
                             (\<exists>j<length (ptable s). parent (ptable s ! j) = Some c \<and>
                                                     state (ptable s ! j) = ZOMBIE))
                    then RUNNABLE else state (ptable s ! i))"
    if "i < length (ptable s)" for i
  proof -
    have "ptable s7 ! i = (if i = c then (ptable s6 ! i)\<lparr>state := ZOMBIE\<rparr> else ptable s6 ! i)"
      using that n6 [OF that] f5 by (simp add: s7_def upd_proc_def nth_list_update)
    moreover note n6 [OF that, unfolded z] p5 [OF that] p3 [OF that] p3 [OF assms(2)]
    ultimately show ?thesis
      using that by (cases "i = c") (auto simp add: f5 f4)
  qed
  show ?thesis
    using a len7 f7 f5 f4 b by (intro exI [of _ s7]) simp
qed

text \<open>
  C7, as the code has it. \<^verbatim>\<open>exit()\<close> by the process in slot \<open>c\<close>, which is not \<^verbatim>\<open>initproc\<close>
  and holds no lock. \<open>s0\<close> is the state handed to the scheduler by \<^verbatim>\<open>swtch\<close>: every slot
  whose parent was \<open>c\<close> has \<^verbatim>\<open>initproc\<close> as its parent and no other parent has changed; if
  one of those children was a \<^verbatim>\<open>ZOMBIE\<close>, every other process that slept on the address of
  \<^verbatim>\<open>initproc\<close> (the reaper in \<^verbatim>\<open>wait\<close>) is \<^verbatim>\<open>RUNNABLE\<close>; slot \<open>c\<close> is a \<^verbatim>\<open>ZOMBIE\<close>. The call
  never returns: the process is not resumed, or it panics with "zombie exit".
\<close>

theorem exit_reparents:
  assumes "cpu_proc s = Some c" and "c < length (ptable s)" and "initproc s \<noteq> Some c"
    and "PTABLE_LOCK \<notin> locks s" and "ncli s = 0"
  shows "(\<forall>u s'. exit W s \<noteq> Ret u s') \<and>
         (\<exists>s0. (case resume W s0 of
                  None \<Rightarrow> exit W s = Away s0
                | Some s8 \<Rightarrow> \<exists>s9. exit W s = Panic ''zombie exit'' s9) \<and>
               length (ptable s0) = length (ptable s) \<and>
               (\<forall>i<length (ptable s).
                  parent (ptable s0 ! i) =
                    (if parent (ptable s ! i) = Some c then initproc s
                     else parent (ptable s ! i))) \<and>
               state (ptable s0 ! c) = ZOMBIE \<and>
               ((\<exists>j<length (ptable s). parent (ptable s ! j) = Some c \<and>
                                       state (ptable s ! j) = ZOMBIE) \<longrightarrow>
                (\<forall>i<length (ptable s).
                   i \<noteq> c \<and> state (ptable s ! i) = SLEEPING \<and>
                   chan (ptable s ! i) = chan_of (initproc s) \<longrightarrow>
                   state (ptable s0 ! i) = RUNNABLE)))"
proof -
  from exit_switch [OF assms, of W] obtain s7 where
    a: "exit W s = (case resume W (log ESwtch s7) of
                      None \<Rightarrow> Away (log ESwtch s7)
                    | Some s8 \<Rightarrow> Panic ''zombie exit'' (s8\<lparr>intena := intena s7\<rparr>))" and
    l: "length (ptable s7) = length (ptable s)" and
    b: "\<forall>i<length (ptable s).
                 parent (ptable s7 ! i) =
                   (if parent (ptable s ! i) = Some c then initproc s
                    else parent (ptable s ! i)) \<and>
                 pid (ptable s7 ! i) = pid (ptable s ! i) \<and>
                 chan (ptable s7 ! i) = chan (ptable s ! i) \<and>
                 state (ptable s7 ! i) =
                   (if i = c then ZOMBIE
                    else if state (ptable s ! i) = SLEEPING \<and>
                            (chan (ptable s ! i) = chan_of (parent (ptable s ! c)) \<or>
                             chan (ptable s ! i) = chan_of (initproc s) \<and>
                             (\<exists>j<length (ptable s). parent (ptable s ! j) = Some c \<and>
                                                     state (ptable s ! j) = ZOMBIE))
                    then RUNNABLE else state (ptable s ! i))"
    by blast
  have pt: "ptable (log ESwtch s7) = ptable s7" by (simp add: log_def)
  have 1: "case resume W (log ESwtch s7) of
                  None \<Rightarrow> exit W s = Away (log ESwtch s7)
                | Some s8 \<Rightarrow> \<exists>s9. exit W s = Panic ''zombie exit'' s9"
    using a by (simp split: option.split)
  have 2: "\<forall>i<length (ptable s).
                  parent (ptable (log ESwtch s7) ! i) =
                    (if parent (ptable s ! i) = Some c then initproc s
                     else parent (ptable s ! i))"
    using b by (simp add: pt)
  have 3: "state (ptable (log ESwtch s7) ! c) = ZOMBIE"
    using b assms(2) by (simp add: pt)
  have 4: "(\<exists>j<length (ptable s). parent (ptable s ! j) = Some c \<and>
                                       state (ptable s ! j) = ZOMBIE) \<longrightarrow>
                (\<forall>i<length (ptable s).
                   i \<noteq> c \<and> state (ptable s ! i) = SLEEPING \<and>
                   chan (ptable s ! i) = chan_of (initproc s) \<longrightarrow>
                   state (ptable (log ESwtch s7) ! i) = RUNNABLE)"
    using b by (simp add: pt)
  have 5: "length (ptable (log ESwtch s7)) = length (ptable s)"
    using l by (simp add: pt)
  show ?thesis
  proof (intro conjI exI)
    show "\<forall>u s'. exit W s \<noteq> Ret u s'" by (simp add: exit_no_ret)
  qed (rule 1 5 2 3 4)+
qed

theorem exit_reparents_witness:
  "ret_val (exit world0 exit_state) = None \<and>
   parent (ptable (state_of (exit world0 exit_state)) ! 3) = Some 0 \<and>
   parent (ptable (state_of (exit world0 exit_state)) ! 4) = Some 0 \<and>
   parent (ptable (state_of (exit world0 exit_state)) ! 1) = Some 0 \<and>
   state (ptable (state_of (exit world0 exit_state)) ! 2) = ZOMBIE \<and>
   state (ptable (state_of (exit world0 exit_state)) ! 0) = RUNNABLE"
proof -
  have h: "cpu_proc exit_state = Some 2" "2 < length (ptable exit_state)"
    "initproc exit_state \<noteq> Some 2" "PTABLE_LOCK \<notin> locks exit_state" "ncli exit_state = 0"
    by (simp_all add: exit_state_def kstate0_def)
  have len: "length (ptable exit_state) = 5" "initproc exit_state = Some 0"
    by (simp_all add: exit_state_def kstate0_def)
  have z: "\<exists>j<length (ptable exit_state). parent (ptable exit_state ! j) = Some 2 \<and>
                                       state (ptable exit_state ! j) = ZOMBIE"
    by (rule exI [of _ 3]) (simp add: exit_state_def kstate0_def proc0_def)
  from exit_reparents [OF h, of world0] obtain s0 where
    a: "exit world0 exit_state = Away s0" and
    b: "\<forall>i<length (ptable exit_state).
                  parent (ptable s0 ! i) =
                    (if parent (ptable exit_state ! i) = Some 2 then initproc exit_state
                     else parent (ptable exit_state ! i))" and
    c: "state (ptable s0 ! 2) = ZOMBIE" and
    d: "(\<exists>j<length (ptable exit_state). parent (ptable exit_state ! j) = Some 2 \<and>
                                       state (ptable exit_state ! j) = ZOMBIE) \<longrightarrow>
                (\<forall>i<length (ptable exit_state).
                   i \<noteq> 2 \<and> state (ptable exit_state ! i) = SLEEPING \<and>
                   chan (ptable exit_state ! i) = chan_of (initproc exit_state) \<longrightarrow>
                   state (ptable s0 ! i) = RUNNABLE)"
    by (auto simp add: world0_def)
  from d z have e: "\<forall>i<length (ptable exit_state).
                   i \<noteq> 2 \<and> state (ptable exit_state ! i) = SLEEPING \<and>
                   chan (ptable exit_state ! i) = chan_of (initproc exit_state) \<longrightarrow>
                   state (ptable s0 ! i) = RUNNABLE" by blast
  have "parent (ptable s0 ! 3) = Some 0" "parent (ptable s0 ! 4) = Some 0"
    "parent (ptable s0 ! 1) = Some 0"
    using b by (simp_all add: exit_state_def kstate0_def proc0_def)
  moreover have "state (ptable s0 ! 0) = RUNNABLE"
    using e by (simp add: exit_state_def kstate0_def proc0_def)
  ultimately show ?thesis using a c by simp
qed

text \<open>
  The claim C7 as it is written fails for the reaper itself: \<^verbatim>\<open>initproc\<close>, with a living
  child, calls \<^verbatim>\<open>exit\<close> and the kernel panics at once; its state stays \<^verbatim>\<open>RUNNING\<close>.
\<close>

theorem exit_init_counterexample:
  "cpu_proc init_exit_state = Some 0 \<and>
   parent (ptable init_exit_state ! 1) = Some 0 \<and>
   state (ptable init_exit_state ! 1) = RUNNABLE \<and>
   exit world0 init_exit_state = Panic ''init exiting'' init_exit_state \<and>
   state (ptable (state_of (exit world0 init_exit_state)) ! 0) = RUNNING"
  by (simp add: exit_def init_exit_state_def kstate0_def proc0_def)

text \<open>
  C8. A trap whose number is none of those the dispatcher knows, taken with interrupts
  off (every gate but the system call's is an interrupt gate). With no current process,
  or with privilege level 0 in the saved \<open>cs\<close>, \<^verbatim>\<open>trap\<close> prints and panics. With a current
  process and the user privilege level in \<open>cs\<close>, the \<^verbatim>\<open>switch\<close> only sets the process's
  \<open>killed\<close> flag and returns; the checkpoint that follows calls \<^verbatim>\<open>exit\<close> in that state, and
  \<^verbatim>\<open>trap\<close> ends as that \<^verbatim>\<open>exit\<close> does.
\<close>

theorem trap_unrecognized:
  assumes "trapno (tfs s t) \<noteq> T_SYSCALL" and "trapno (tfs s t) \<noteq> T_IRQ0 + IRQ_TIMER"
    and "trapno (tfs s t) \<noteq> T_IRQ0 + IRQ_IDE" and "trapno (tfs s t) \<noteq> T_IRQ0 + IRQ_IDE + 1"
    and "trapno (tfs s t) \<noteq> T_IRQ0 + IRQ_KBD" and "trapno (tfs s t) \<noteq> T_IRQ0 + IRQ_COM1"
    and "trapno (tfs s t) \<noteq> T_IRQ0 + 7" and "trapno (tfs s t) \<noteq> T_IRQ0 + IRQ_SPURIOUS"
    and "\<not> intr s"
  shows "(cpu_proc s = None \<or> cs (tfs s t) AND 3 = 0 \<longrightarrow>
            trap W t s = Panic ''trap'' (log (ECprintf ''unexpected trap'') s)) \<and>
         (\<forall>p. cpu_proc s = Some p \<and> p < length (ptable s) \<and> cs (tfs s t) AND 3 = DPL_USER \<longrightarrow>
            trap_switch W t s =
              Ret () (upd_proc p (\<lambda>r. r\<lparr>killed := 1\<rparr>) (log (ECprintf ''kill proc'') s)) \<and>
            trap W t s =
              exit W (upd_proc p (\<lambda>r. r\<lparr>killed := 1\<rparr>) (log (ECprintf ''kill proc'') s)))"
proof (intro conjI allI impI)
  assume "cpu_proc s = None \<or> cs (tfs s t) AND 3 = 0"
  then have "trap_switch W t s = Panic ''trap'' (log (ECprintf ''unexpected trap'') s)"
    using assms
    by (auto simp add: trap_switch_def unexpected_trap_def cpuid_def Let_def split: option.split)
  then show "trap W t s = Panic ''trap'' (log (ECprintf ''unexpected trap'') s)"
    using assms(1) by (simp add: trap_def)
next
  fix p
  assume a: "cpu_proc s = Some p \<and> p < length (ptable s) \<and> cs (tfs s t) AND 3 = DPL_USER"
  let ?s1 = "upd_proc p (\<lambda>r. r\<lparr>killed := 1\<rparr>) (log (ECprintf ''kill proc'') s)"
  show sw: "trap_switch W t s = Ret () ?s1"
    using assms a
    by (simp add: trap_switch_def cpuid_def Let_def DPL_USER_def)
  have "trap_killed W t ?s1 = exit W ?s1"
    using a by (simp add: trap_killed_def upd_proc_def log_def)
  then have "trap W t s = kbind (exit W ?s1)
                (\<lambda>_ s2. kbind (trap_yield W t s2) (\<lambda>_. trap_killed W t))"
    using assms(1) sw by (simp add: trap_def)
  also have "\<dots> = exit W ?s1"
    by (rule kbind_no_ret) (rule exit_no_ret)
  finally show "trap W t s = exit W ?s1" .
qed

lemma exit_trap_state:
  "ret_val (exit world0 (upd_proc 1 (\<lambda>r. r\<lparr>killed := 1\<rparr>) (log (ECprintf ''kill proc'') trap_state)))
     = None"
  "map state (ptable (state_of (exit world0 (upd_proc 1 (\<lambda>r. r\<lparr>killed := 1\<rparr>)
                           (log (ECprintf ''kill proc'') trap_state))))) = [RUNNABLE, ZOMBIE]"
  by (simp_all add: exit_def trap_state_def kstate0_def proc0_def upd_proc_def log_def log_all_def
        acquire_def pushcli_def holding_def Let_def wakeup1_def sched_def world0_def
        upt_rec [of 0] upt_rec [of 1] upt_rec [of "Suc 0"])

theorem trap_unrecognized_witness:
  "killed (ptable (state_of (trap_switch world0 100 trap_state)) ! 1) = 1 \<and>
   map state (ptable (state_of (trap_switch world0 100 trap_state))) = [SLEEPING, RUNNING] \<and>
   ret_val (trap world0 100 trap_state) = None \<and>
   map state (ptable (state_of (trap world0 100 trap_state))) = [RUNNABLE, ZOMBIE] \<and>
   trap world0 100 ktrap_state = Panic ''trap'' (log (ECprintf ''unexpected trap'') ktrap_state)"
proof -
  have n: "trapno (tfs trap_state 100) \<noteq> T_SYSCALL"
    "trapno (tfs trap_state 100) \<noteq> T_IRQ0 + IRQ_TIMER"
    "trapno (tfs trap_state 100) \<noteq> T_IRQ0 + IRQ_IDE"
    "trapno (tfs trap_state 100) \<noteq> T_IRQ0 + IRQ_IDE + 1"
    "trapno (tfs trap_state 100) \<noteq> T_IRQ0 + IRQ_KBD"
    "trapno (tfs trap_state 100) \<noteq> T_IRQ0 + IRQ_COM1"
    "trapno (tfs trap_state 100) \<noteq> T_IRQ0 + 7"
    "trapno (tfs trap_state 100) \<noteq> T_IRQ0 + IRQ_SPURIOUS" "\<not> intr trap_state"
    by (simp_all add: trap_state_def kstate0_def tf0_def T_SYSCALL_def T_IRQ0_def IRQ_TIMER_def
          IRQ_IDE_def IRQ_KBD_def IRQ_COM1_def IRQ_SPURIOUS_def)
  have k: "trapno (tfs ktrap_state 100) \<noteq> T_SYSCALL"
    "trapno (tfs ktrap_state 100) \<noteq> T_IRQ0 + IRQ_TIMER"
    "trapno (tfs ktrap_state 100) \<noteq> T_IRQ0 + IRQ_IDE"
    "trapno (tfs ktrap_state 100) \<noteq> T_IRQ0 + IRQ_IDE + 1"
    "trapno (tfs ktrap_state 100) \<noteq> T_IRQ0 + IRQ_KBD"
    "trapno (tfs ktrap_state 100) \<noteq> T_IRQ0 + IRQ_COM1"
    "trapno (tfs ktrap_state 100) \<noteq> T_IRQ0 + 7"
    "trapno (tfs ktrap_state 100) \<noteq> T_IRQ0 + IRQ_SPURIOUS" "\<not> intr ktrap_state"
    by (simp_all add: ktrap_state_def trap_state_def kstate0_def tf0_def T_SYSCALL_def T_IRQ0_def
          IRQ_TIMER_def IRQ_IDE_def IRQ_KBD_def IRQ_COM1_def IRQ_SPURIOUS_def)
  have u: "cpu_proc trap_state = Some 1 \<and> 1 < length (ptable trap_state) \<and>
           cs (tfs trap_state 100) AND 3 = DPL_USER"
    by (simp add: trap_state_def kstate0_def tf0_def DPL_USER_def)
  have kk: "cpu_proc ktrap_state = None \<or> cs (tfs ktrap_state 100) AND 3 = 0"
    by (simp add: ktrap_state_def trap_state_def kstate0_def tf0_def)
  from trap_unrecognized [OF n, of world0] u
  have "trap_switch world0 100 trap_state =
          Ret () (upd_proc 1 (\<lambda>r. r\<lparr>killed := 1\<rparr>) (log (ECprintf ''kill proc'') trap_state))"
       "trap world0 100 trap_state =
          exit world0 (upd_proc 1 (\<lambda>r. r\<lparr>killed := 1\<rparr>) (log (ECprintf ''kill proc'') trap_state))"
    by blast+
  moreover from trap_unrecognized [OF k, of world0] kk
  have "trap world0 100 ktrap_state = Panic ''trap'' (log (ECprintf ''unexpected trap'') ktrap_state)"
    by blast
  moreover have "killed (ptable (upd_proc 1 (\<lambda>r. r\<lparr>killed := 1\<rparr>)
                                  (log (ECprintf ''kill proc'') trap_state)) ! 1) = 1"
    "map state (ptable (upd_proc 1 (\<lambda>r. r\<lparr>killed := 1\<rparr>)
                                  (log (ECprintf ''kill proc'') trap_state))) = [SLEEPING, RUNNING]"
    by (simp_all add: upd_proc_def log_def trap_state_def kstate0_def proc0_def)
  ultimately show ?thesis
    using exit_trap_state by simp
qed

lemma kalloc_ok:
  assumes "KMEM_LOCK \<notin> locks s" and "cli_ok s" and "freelist s = k # fl" and "k \<noteq> 0"
  shows "\<exists>s'. kalloc s = Ret k s' \<and> ptable s' = ptable s \<and> nextpid s' = nextpid s \<and>
              freelist s' = fl \<and> locks s' = locks s \<and> ncli s' = ncli s \<and>
              intr s' = intr s \<and> cpu_proc s' = cpu_proc s \<and> tfs s' = tfs s \<and>
              ctxs s' = ctxs s \<and> stackw s' = stackw s \<and>
              use_lock s' = use_lock s \<and> initproc s' = initproc s \<and>
              trace s' = trace s @ (if use_lock s then [EAcquire KMEM_LOCK, ERelease KMEM_LOCK]
                                    else [])"
  using assms by (auto simp add: kalloc_def acquire_ok release_ok Let_def)

lemma allocproc_ok:
  assumes "PTABLE_LOCK \<notin> locks s" and "KMEM_LOCK \<notin> locks s" and "cli_ok s"
    and "find_first (\<lambda>p. state p = UNUSED) (ptable s) = Some n"
    and "freelist s = k # fl" and "k \<noteq> 0"
  shows "\<exists>s'. allocproc W s = Ret (Some n) s' \<and>
              ptable s' = (ptable s)[n := (ptable s ! n)\<lparr>state := EMBRYO, pid := nextpid s,
                              kstack := k, tf := k + KSTACKSIZE W - TFSIZE W,
                              ctx := k + KSTACKSIZE W - TFSIZE W - 4 - 20\<rparr>] \<and>
              nextpid s' = nextpid s + 1 \<and>
              freelist s' = fl \<and> locks s' = locks s \<and> ncli s' = ncli s \<and>
              intr s' = intr s \<and> cpu_proc s' = cpu_proc s \<and> tfs s' = tfs s \<and>
              use_lock s' = use_lock s \<and> initproc s' = initproc s \<and>
              trace s' = trace s @ [EAcquire PTABLE_LOCK, ERelease PTABLE_LOCK] @
                         (if use_lock s then [EAcquire KMEM_LOCK, ERelease KMEM_LOCK] else [])"
proof -
  define s2 where
    "s2 = (upd_proc n (\<lambda>r. r\<lparr>state := EMBRYO, pid := nextpid s\<rparr>) s)
            \<lparr>nextpid := nextpid s + 1,
             intena := (if ncli s = 0 then intr s else intena s),
             trace := trace s @ [EAcquire PTABLE_LOCK, ERelease PTABLE_LOCK]\<rparr>"
  have a: "allocproc W s =
             kbind (kalloc s2)
               (\<lambda>k s3.
                  if k = 0
                  then Ret None (upd_proc n (\<lambda>r. r\<lparr>kstack := 0, state := UNUSED\<rparr>) s3)
                  else
                    (let sp1 = k + KSTACKSIZE W - TFSIZE W;
                         sp2 = sp1 - 4;
                         sp3 = sp2 - 20;
                         s4 = upd_proc n (\<lambda>r. r\<lparr>kstack := k, tf := sp1, ctx := sp3\<rparr>) s3
                     in Ret (Some n)
                          (s4\<lparr>stackw := (stackw s4)(sp2 := trapret W),
                              ctxs := (ctxs s4)(sp3 :=
                                \<lparr>ctx_edi = 0, ctx_esi = 0, ctx_ebx = 0, ctx_ebp = 0,
                                 ctx_eip = forkret W\<rparr>)\<rparr>)))"
  proof -
    have "release PTABLE_LOCK
            ((upd_proc n (\<lambda>r. r\<lparr>state := EMBRYO, pid := nextpid
                 (s\<lparr>ncli := ncli s + 1,
                           intena := (if ncli s = 0 then intr s else intena s),
                           intr := False, locks := insert PTABLE_LOCK (locks s),
                           trace := trace s @ [EAcquire PTABLE_LOCK]\<rparr>)\<rparr>)
                 (s\<lparr>ncli := ncli s + 1,
                           intena := (if ncli s = 0 then intr s else intena s),
                           intr := False, locks := insert PTABLE_LOCK (locks s),
                           trace := trace s @ [EAcquire PTABLE_LOCK]\<rparr>))
               \<lparr>nextpid := nextpid (s\<lparr>ncli := ncli s + 1,
                           intena := (if ncli s = 0 then intr s else intena s),
                           intr := False, locks := insert PTABLE_LOCK (locks s),
                           trace := trace s @ [EAcquire PTABLE_LOCK]\<rparr>) + 1\<rparr>) = Ret () s2"
      using assms(1,3)
      by (subst release_ok) (auto simp add: upd_proc_def s2_def)
    then show ?thesis
      using assms(1,4) by (simp add: allocproc_def acquire_ok)
  qed
  have "KMEM_LOCK \<notin> locks s2" "cli_ok s2" "freelist s2 = k # fl"
    using assms(2,3,5) by (simp_all add: s2_def upd_proc_def)
  from kalloc_ok [OF this assms(6)] obtain s3 where
    k: "kalloc s2 = Ret k s3" "ptable s3 = ptable s2" "nextpid s3 = nextpid s2"
       "freelist s3 = fl" "locks s3 = locks s2" "ncli s3 = ncli s2"
       "intr s3 = intr s2" "cpu_proc s3 = cpu_proc s2" "tfs s3 = tfs s2"
       "use_lock s3 = use_lock s2" "initproc s3 = initproc s2"
       "trace s3 = trace s2 @ (if use_lock s2 then [EAcquire KMEM_LOCK, ERelease KMEM_LOCK]
                                    else [])"
    by blast
  from find_first_Some [OF assms(4)] have n: "n < length (ptable s)" by simp
  show ?thesis
    using k assms(6) n
    by (simp add: a Let_def upd_proc_def s2_def add.commute)
qed

lemma kfree_cli_ok:
  assumes "page_ok W v" and "KMEM_LOCK \<notin> locks s" and "cli_ok s"
  shows "\<exists>s'. kfree W v s = Ret () s' \<and> ptable s' = ptable s \<and>
              freelist s' = v # freelist s \<and> locks s' = locks s \<and> ncli s' = ncli s \<and>
              intr s' = intr s \<and> cpu_proc s' = cpu_proc s \<and> nextpid s' = nextpid s \<and>
              initproc s' = initproc s \<and>
              trace s' = trace s @ (if use_lock s then [EAcquire KMEM_LOCK, ERelease KMEM_LOCK]
                                    else [])"
  using assms
  by (auto simp add: kfree_def junk_fill_def acquire_ok release_ok)

lemma state_update_same: "state r = v \<Longrightarrow> r\<lparr>state := v\<rparr> = r"
  by (cases r) simp

lemma fork_fail:
  assumes "cpu_proc s = Some c" and "c < length (ptable s)"
    and "PTABLE_LOCK \<notin> locks s" and "KMEM_LOCK \<notin> locks s" and "cli_ok s"
    and "find_first (\<lambda>p. state p = UNUSED) (ptable s) = Some n"
    and "freelist s = k # fl" and "k \<noteq> 0" and "page_ok W k"
    and "copyuvm_op W (pgdir (ptable s ! c)) (sz (ptable s ! c)) fl = (0, fl')"
  shows "\<exists>s'. fork W s = Ret (- 1) s' \<and>
              ptable s' = (ptable s)[n := (ptable s ! n)\<lparr>pid := nextpid s, kstack := 0,
                              pgdir := 0, tf := k + KSTACKSIZE W - TFSIZE W,
                              ctx := k + KSTACKSIZE W - TFSIZE W - 4 - 20\<rparr>] \<and>
              nextpid s' = nextpid s + 1 \<and> freelist s' = k # fl' \<and> locks s' = locks s"
proof -
  from find_first_Some [OF assms(6)]
  have n: "n < length (ptable s)" "state (ptable s ! n) = UNUSED" by simp_all
  from allocproc_ok [OF assms(3-8), of W] obtain s1 where
    a: "allocproc W s = Ret (Some n) s1"
       "ptable s1 = (ptable s)[n := (ptable s ! n)\<lparr>state := EMBRYO, pid := nextpid s,
                              kstack := k, tf := k + KSTACKSIZE W - TFSIZE W,
                              ctx := k + KSTACKSIZE W - TFSIZE W - 4 - 20\<rparr>]"
       "nextpid s1 = nextpid s + 1" "freelist s1 = fl" "locks s1 = locks s" "ncli s1 = ncli s"
       "intr s1 = intr s" "cpu_proc s1 = cpu_proc s"
    by blast
  have cn: "c \<noteq> n \<or> c = n" by simp
  have pc: "pgdir (ptable s1 ! c) = pgdir (ptable s ! c)" "sz (ptable s1 ! c) = sz (ptable s ! c)"
    using assms(2) n(1) by (simp_all add: a(2) nth_list_update)
  define s2 where "s2 = upd_proc n (\<lambda>r. r\<lparr>pgdir := 0\<rparr>) (s1\<lparr>freelist := fl'\<rparr>)"
  have f2: "KMEM_LOCK \<notin> locks s2" "cli_ok s2" "kstack (ptable s2 ! n) = k"
    using assms(4,5) n(1) by (simp_all add: s2_def upd_proc_def a)
  from kfree_cli_ok [OF assms(9) f2(1,2)] obtain s3 where
    k: "kfree W k s2 = Ret () s3" "ptable s3 = ptable s2" "freelist s3 = k # freelist s2"
       "locks s3 = locks s2" "nextpid s3 = nextpid s2"
    by blast
  have "fork W s = Ret (- 1) (upd_proc n (\<lambda>r. r\<lparr>kstack := 0, state := UNUSED\<rparr>) s3)"
    using assms(1,10) a(1,4) pc k(1) f2(3)
    by (simp add: fork_def Let_def s2_def [symmetric])
  then show ?thesis
    using n k
    apply (simp add: upd_proc_def s2_def a)
    apply (rule arg_cong [where f = "\<lambda>x. (ptable s)[n := x]"])
    apply (rule proc.equality)
    apply simp_all
    done
qed

text \<open>
  C5, as the code has it. \<^verbatim>\<open>fork\<close> by the process in slot \<open>c\<close>, when \<^verbatim>\<open>allocproc\<close> claims
  the free slot \<open>n\<close> with the page \<open>k\<close> for its stack and \<^verbatim>\<open>copyuvm\<close> then fails: \<^verbatim>\<open>fork\<close>
  returns -1, the page is back on the free list, every slot has the state it had (slot
  \<open>n\<close> is \<^verbatim>\<open>UNUSED\<close> again, none is left \<^verbatim>\<open>EMBRYO\<close>) and every slot but \<open>n\<close> is unchanged.
  Slot \<open>n\<close> is what it was but for five fields: \<open>kstack\<close> and \<open>pgdir\<close> are null, \<open>tf\<close> and
  \<open>ctx\<close> point into the freed stack, and \<open>pid\<close> has some value; \<^verbatim>\<open>nextpid\<close> has advanced.
\<close>

theorem fork_copy_failure:
  assumes "cpu_proc s = Some c" and "c < length (ptable s)"
    and "PTABLE_LOCK \<notin> locks s" and "KMEM_LOCK \<notin> locks s" and "cli_ok s"
    and "find_first (\<lambda>p. state p = UNUSED) (ptable s) = Some n"
    and "freelist s = k # fl" and "k \<noteq> 0" and "page_ok W k"
    and "copyuvm_op W (pgdir (ptable s ! c)) (sz (ptable s ! c)) fl = (0, fl')"
  shows "\<exists>s'. fork W s = Ret (- 1) s' \<and>
              length (ptable s') = length (ptable s) \<and>
              (\<forall>i<length (ptable s). state (ptable s' ! i) = state (ptable s ! i)) \<and>
              state (ptable s' ! n) = UNUSED \<and>
              (\<forall>i<length (ptable s). i \<noteq> n \<longrightarrow> ptable s' ! i = ptable s ! i) \<and>
              (\<exists>pd. ptable s' ! n = (ptable s ! n)\<lparr>pid := pd, kstack := 0, pgdir := 0,
                                      tf := k + KSTACKSIZE W - TFSIZE W,
                                      ctx := k + KSTACKSIZE W - TFSIZE W - 4 - 20\<rparr>) \<and>
              nextpid s' = nextpid s + 1 \<and> freelist s' = k # fl'"
proof -
  from find_first_Some [OF assms(6)]
  have n: "n < length (ptable s)" "state (ptable s ! n) = UNUSED" by simp_all
  from fork_fail [OF assms] obtain s' where
    f: "fork W s = Ret (- 1) s'"
       "ptable s' = (ptable s)[n := (ptable s ! n)\<lparr>pid := nextpid s, kstack := 0,
                              pgdir := 0, tf := k + KSTACKSIZE W - TFSIZE W,
                              ctx := k + KSTACKSIZE W - TFSIZE W - 4 - 20\<rparr>]"
       "nextpid s' = nextpid s + 1" "freelist s' = k # fl'"
    by blast
  have "\<forall>i<length (ptable s). state (ptable s' ! i) = state (ptable s ! i)"
    using n by (simp add: f(2) nth_list_update)
  moreover have "\<exists>pd. ptable s' ! n = (ptable s ! n)\<lparr>pid := pd, kstack := 0, pgdir := 0,
                                      tf := k + KSTACKSIZE W - TFSIZE W,
                                      ctx := k + KSTACKSIZE W - TFSIZE W - 4 - 20\<rparr>"
    using n by (intro exI [of _ "nextpid s"]) (simp add: f(2))
  ultimately show ?thesis
    using f n by (intro exI [of _ s']) simp
qed

lemma fork_state_facts:
  "cpu_proc fork_state = Some 0" "0 < length (ptable fork_state)"
  "PTABLE_LOCK \<notin> locks fork_state" "KMEM_LOCK \<notin> locks fork_state" "cli_ok fork_state"
  "find_first (\<lambda>p. state p = UNUSED) (ptable fork_state) = Some 1"
  "freelist fork_state = [0x80200000]" "(0x80200000 :: nat) \<noteq> 0" "page_ok world0 0x80200000"
  "copyuvm_op world0 (pgdir (ptable fork_state ! 0)) (sz (ptable fork_state ! 0)) [] = (0, [])"
  by (simp_all add: fork_state_def kstate0_def proc0_def world0_def V2P_def)

theorem fork_copy_failure_witness:
  "ret_val (fork world0 fork_state) = Some (- 1) \<and>
   map state (ptable (state_of (fork world0 fork_state))) = [RUNNING, UNUSED] \<and>
   ptable (state_of (fork world0 fork_state)) ! 0 = ptable fork_state ! 0 \<and>
   kstack (ptable (state_of (fork world0 fork_state)) ! 1) = 0 \<and>
   freelist (state_of (fork world0 fork_state)) = [0x80200000]"
proof -
  from fork_copy_failure [OF fork_state_facts] obtain s' where
    f: "fork world0 fork_state = Ret (- 1) s'"
       "length (ptable s') = length (ptable fork_state)"
       "\<forall>i<length (ptable fork_state). state (ptable s' ! i) = state (ptable fork_state ! i)"
       "\<forall>i<length (ptable fork_state). i \<noteq> 1 \<longrightarrow> ptable s' ! i = ptable fork_state ! i"
       "\<exists>pd. ptable s' ! 1 = (ptable fork_state ! 1)\<lparr>pid := pd, kstack := 0,
                           pgdir := 0, tf := 0x80200000 + KSTACKSIZE world0 - TFSIZE world0,
                           ctx := 0x80200000 + KSTACKSIZE world0 - TFSIZE world0 - 4 - 20\<rparr>"
       "freelist s' = [0x80200000]"
    by blast
  have l: "length (ptable fork_state) = 2" by (simp add: fork_state_def kstate0_def)
  have "state (ptable s' ! 0) = RUNNING" "state (ptable s' ! 1) = UNUSED"
    using f(3) by (simp_all add: fork_state_def kstate0_def proc0_def)
  then have "map state (ptable s') = [RUNNING, UNUSED]"
    using f(2) l by (cases "ptable s'"; cases "tl (ptable s')") auto
  moreover have "ptable s' ! 0 = ptable fork_state ! 0"
    using f(4) l by simp
  moreover have "kstack (ptable s' ! 1) = 0"
    using f(5) by auto
  ultimately show ?thesis using f(1,6) by simp
qed

text \<open>
  The claim C5 as it is written fails: after the failed \<^verbatim>\<open>fork\<close> of \<open>fork_state\<close> the free
  slot holds the identifier 2 where it held 0, so the table is not what it was.
\<close>

theorem fork_copy_failure_counterexample:
  "ret_val (fork world0 fork_state) = Some (- 1) \<and>
   pid (ptable fork_state ! 1) = 0 \<and>
   pid (ptable (state_of (fork world0 fork_state)) ! 1) = 2 \<and>
   ptable (state_of (fork world0 fork_state)) \<noteq> ptable fork_state"
proof -
  from fork_fail [OF fork_state_facts] obtain s' where
    f: "fork world0 fork_state = Ret (- 1) s'"
       "ptable s' = (ptable fork_state)[1 := (ptable fork_state ! 1)\<lparr>pid := nextpid fork_state,
                       kstack := 0, pgdir := 0,
                       tf := 0x80200000 + KSTACKSIZE world0 - TFSIZE world0,
                       ctx := 0x80200000 + KSTACKSIZE world0 - TFSIZE world0 - 4 - 20\<rparr>]"
    by blast
  have a: "pid (ptable fork_state ! 1) = 0" "pid (ptable s' ! 1) = 2"
    by (simp_all add: f(2)) (simp_all add: fork_state_def kstate0_def proc0_def)
  then have "ptable s' \<noteq> ptable fork_state" by auto
  with a f(1) show ?thesis by simp
qed



lemma shc_ptable: "ptable s' = ptable s \<Longrightarrow> sleeping_has_chan s' = sleeping_has_chan s"
  by (simp add: sleeping_has_chan_def)

lemma shc_kbind:
  assumes "sleeping_has_chan (state_of m)"
    and "\<And>a s. sleeping_has_chan s \<Longrightarrow> sleeping_has_chan (state_of (f a s))"
  shows "sleeping_has_chan (state_of (kbind m f))"
  using assms by (cases m) auto

lemma shc_upd_proc:
  assumes "sleeping_has_chan s"
    and "p < length (ptable s) \<Longrightarrow>
         state (f (ptable s ! p)) = SLEEPING \<longrightarrow> chan (f (ptable s ! p)) \<noteq> NULL"
  shows "sleeping_has_chan (upd_proc p f s)"
proof (cases "p < length (ptable s)")
  case True
  have "set ((ptable s)[p := f (ptable s ! p)]) \<subseteq> insert (f (ptable s ! p)) (set (ptable s))"
    by (rule set_update_subset_insert)
  with assms True show ?thesis
    by (auto simp add: sleeping_has_chan_def upd_proc_def list_all_iff)
next
  case False
  with assms(1) show ?thesis
    by (simp add: sleeping_has_chan_def upd_proc_def list_update_beyond)
qed

lemma shc_upd_pres:
  assumes "sleeping_has_chan s"
    and "\<And>r. state r = SLEEPING \<longrightarrow> chan r \<noteq> NULL \<Longrightarrow>
              state (f r) = SLEEPING \<longrightarrow> chan (f r) \<noteq> NULL"
  shows "sleeping_has_chan (upd_proc p f s)"
  using assms(1)
proof (rule shc_upd_proc)
  assume "p < length (ptable s)"
  with assms(1) have "state (ptable s ! p) = SLEEPING \<longrightarrow> chan (ptable s ! p) \<noteq> NULL"
    by (simp add: sleeping_has_chan_def list_all_length)
  then show "state (f (ptable s ! p)) = SLEEPING \<longrightarrow> chan (f (ptable s ! p)) \<noteq> NULL"
    by (rule assms(2))
qed

lemma shc_nth:
  "sleeping_has_chan s \<Longrightarrow> p < length (ptable s) \<Longrightarrow> state (ptable s ! p) = SLEEPING \<Longrightarrow>
   chan (ptable s ! p) \<noteq> NULL"
  by (simp add: sleeping_has_chan_def list_all_length)

lemma shc_wakeup1: "sleeping_has_chan s \<Longrightarrow> sleeping_has_chan (wakeup1 c s)"
  by (auto simp add: sleeping_has_chan_def wakeup1_def list_all_iff)

lemma shc_log [simp]: "sleeping_has_chan (log e s) = sleeping_has_chan s"
  by (simp add: sleeping_has_chan_def log_def)

lemma shc_log_all [simp]: "sleeping_has_chan (log_all evs s) = sleeping_has_chan s"
  by (simp add: sleeping_has_chan_def log_all_def)

lemma shc_popcli: "sleeping_has_chan s \<Longrightarrow> sleeping_has_chan (state_of (popcli s))"
  by (simp add: sleeping_has_chan_def popcli_def)

lemma shc_acquire: "sleeping_has_chan s \<Longrightarrow> sleeping_has_chan (state_of (acquire l s))"
  by (simp add: sleeping_has_chan_def acquire_def pushcli_def log_def Let_def)

lemma shc_release: "sleeping_has_chan s \<Longrightarrow> sleeping_has_chan (state_of (release l s))"
  by (simp add: release_def shc_popcli sleeping_has_chan_def log_def popcli_def)

lemma shc_Ret [simp]: "sleeping_has_chan (state_of (Ret a s)) = sleeping_has_chan s"
  by simp

lemma shc_wakeup: "sleeping_has_chan s \<Longrightarrow> sleeping_has_chan (state_of (wakeup c s))"
  unfolding wakeup_def
  by (intro shc_kbind shc_acquire shc_release shc_wakeup1)

lemma shc_kill: "sleeping_has_chan s \<Longrightarrow> sleeping_has_chan (state_of (kill pd s))"
  unfolding kill_def
proof (intro shc_kbind shc_acquire)
  fix a :: unit and s1
  assume i: "sleeping_has_chan s1"
  show "sleeping_has_chan (state_of
          (case find_first (\<lambda>p. pid p = pd) (ptable s1) of
             None \<Rightarrow> kbind (release PTABLE_LOCK s1) (\<lambda>_. Ret (- 1))
           | Some i \<Rightarrow>
               let s2 = upd_proc i (\<lambda>r. r\<lparr>killed := 1\<rparr>) s1;
                   s3 = if state (ptable s2 ! i) = SLEEPING
                        then upd_proc i (\<lambda>r. r\<lparr>state := RUNNABLE\<rparr>) s2 else s2
               in kbind (release PTABLE_LOCK s3) (\<lambda>_. Ret 0)))"
  proof (cases "find_first (\<lambda>p. pid p = pd) (ptable s1)")
    case None
    with i show ?thesis by (simp add: shc_kbind shc_release)
  next
    case (Some j)
    have 2: "sleeping_has_chan (upd_proc j (\<lambda>r. r\<lparr>killed := 1\<rparr>) s1)"
      using i by (rule shc_upd_pres) simp
    then have 3: "sleeping_has_chan (upd_proc j (\<lambda>r. r\<lparr>state := RUNNABLE\<rparr>)
                                      (upd_proc j (\<lambda>r. r\<lparr>killed := 1\<rparr>) s1))"
      by (rule shc_upd_pres) simp
    from Some 2 3 show ?thesis
      by (simp add: Let_def shc_kbind shc_release)
  qed
qed (assumption)

lemma env_ok_resume:
  assumes "env_ok W" and "resume W s = Some s'" and "sleeping_has_chan s"
  shows "sleeping_has_chan s'"
    and "cpu_proc s = Some p \<Longrightarrow> p < length (ptable s') \<Longrightarrow> state (ptable s' ! p) = RUNNING"
proof -
  from assms(1) have "\<forall>s s'. resume W s = Some s' \<longrightarrow> sleeping_has_chan s \<longrightarrow>
         sleeping_has_chan s' \<and>
         (\<forall>p. cpu_proc s = Some p \<longrightarrow> p < length (ptable s') \<longrightarrow>
            state (ptable s' ! p) = RUNNING)"
    unfolding env_ok_def by (rule conjunct1)
  with assms(2,3) have *: "sleeping_has_chan s' \<and>
         (\<forall>p. cpu_proc s = Some p \<longrightarrow> p < length (ptable s') \<longrightarrow>
            state (ptable s' ! p) = RUNNING)"
    by blast
  from * show "sleeping_has_chan s'" by (rule conjunct1)
  from * show "cpu_proc s = Some p \<Longrightarrow> p < length (ptable s') \<Longrightarrow>
               state (ptable s' ! p) = RUNNING"
    by blast
qed

lemma env_ok_others:
  assumes "env_ok W"
  shows "run_proc W s = Some s' \<Longrightarrow> sleeping_has_chan s \<Longrightarrow> sleeping_has_chan s'"
    and "sleeping_has_chan s \<Longrightarrow> sleeping_has_chan (state_of (syscall_op W s))"
    and "sleeping_has_chan s \<Longrightarrow> sleeping_has_chan (state_of (ideintr_op W s))"
    and "sleeping_has_chan s \<Longrightarrow> sleeping_has_chan (state_of (kbdintr_op W s))"
    and "sleeping_has_chan s \<Longrightarrow> sleeping_has_chan (state_of (uartintr_op W s))"
proof -
  from assms have
    a: "\<forall>s s'. run_proc W s = Some s' \<longrightarrow> sleeping_has_chan s \<longrightarrow> sleeping_has_chan s'" and
    b: "\<forall>s. sleeping_has_chan s \<longrightarrow> sleeping_has_chan (state_of (syscall_op W s))" and
    c: "\<forall>s. sleeping_has_chan s \<longrightarrow> sleeping_has_chan (state_of (ideintr_op W s))" and
    d: "\<forall>s. sleeping_has_chan s \<longrightarrow> sleeping_has_chan (state_of (kbdintr_op W s))" and
    e: "\<forall>s. sleeping_has_chan s \<longrightarrow> sleeping_has_chan (state_of (uartintr_op W s))"
    unfolding env_ok_def by simp_all
  from a show "run_proc W s = Some s' \<Longrightarrow> sleeping_has_chan s \<Longrightarrow> sleeping_has_chan s'"
    by blast
  from b show "sleeping_has_chan s \<Longrightarrow> sleeping_has_chan (state_of (syscall_op W s))" by blast
  from c show "sleeping_has_chan s \<Longrightarrow> sleeping_has_chan (state_of (ideintr_op W s))" by blast
  from d show "sleeping_has_chan s \<Longrightarrow> sleeping_has_chan (state_of (kbdintr_op W s))" by blast
  from e show "sleeping_has_chan s \<Longrightarrow> sleeping_has_chan (state_of (uartintr_op W s))" by blast
qed

lemma sched_cases:
  assumes "cpu_proc s = Some p"
  shows "(\<exists>m. sched W s = Panic m s) \<or>
         sched W s = (case resume W (log ESwtch s) of
                        None \<Rightarrow> Away (log ESwtch s)
                      | Some s1 \<Rightarrow> Ret () (s1\<lparr>intena := intena s\<rparr>))"
  using assms by (simp add: sched_def)

lemma shc_sched:
  assumes "sleeping_has_chan s" and "env_ok W"
  shows "sleeping_has_chan (state_of (sched W s))"
proof (cases "cpu_proc s")
  case None
  with assms(1) show ?thesis by (simp add: sched_def)
next
  case (Some p)
  from sched_cases [OF Some, of W] show ?thesis
  proof
    assume "\<exists>m. sched W s = Panic m s"
    with assms(1) show ?thesis by auto
  next
    assume b: "sched W s = (case resume W (log ESwtch s) of
                        None \<Rightarrow> Away (log ESwtch s)
                      | Some s1 \<Rightarrow> Ret () (s1\<lparr>intena := intena s\<rparr>))"
    show ?thesis
    proof (cases "resume W (log ESwtch s)")
      case None
      with b assms(1) show ?thesis by (simp add: log_def sleeping_has_chan_def)
    next
      case (Some s1)
      have "sleeping_has_chan (log ESwtch s)"
        using assms(1) by (simp add: log_def sleeping_has_chan_def)
      from env_ok_resume(1) [OF assms(2) Some this] b Some show ?thesis
        by (simp add: sleeping_has_chan_def)
    qed
  qed
qed

lemma shc_fields [simp]:
  "sleeping_has_chan (s\<lparr>locks := a1\<rparr>) = sleeping_has_chan s"
  "sleeping_has_chan (s\<lparr>ncli := a2\<rparr>) = sleeping_has_chan s"
  "sleeping_has_chan (s\<lparr>intena := a3\<rparr>) = sleeping_has_chan s"
  "sleeping_has_chan (s\<lparr>intr := a4\<rparr>) = sleeping_has_chan s"
  "sleeping_has_chan (s\<lparr>cpu_proc := a5\<rparr>) = sleeping_has_chan s"
  "sleeping_has_chan (s\<lparr>nextpid := a6\<rparr>) = sleeping_has_chan s"
  "sleeping_has_chan (s\<lparr>ticks := a7\<rparr>) = sleeping_has_chan s"
  "sleeping_has_chan (s\<lparr>freelist := a8\<rparr>) = sleeping_has_chan s"
  "sleeping_has_chan (s\<lparr>tfs := a9\<rparr>) = sleeping_has_chan s"
  "sleeping_has_chan (s\<lparr>ctxs := a10\<rparr>) = sleeping_has_chan s"
  "sleeping_has_chan (s\<lparr>stackw := a11\<rparr>) = sleeping_has_chan s"
  "sleeping_has_chan (s\<lparr>trace := a12\<rparr>) = sleeping_has_chan s"
  by (simp_all add: sleeping_has_chan_def)

lemma shc_bind:
  assumes "sleeping_has_chan (state_of m)"
    and "\<And>a s. m = Ret a s \<Longrightarrow> sleeping_has_chan s \<Longrightarrow> sleeping_has_chan (state_of (f a s))"
  shows "sleeping_has_chan (state_of (kbind m f))"
  using assms by (cases m) auto

lemma popcli_cpu: "popcli s = Ret u s' \<Longrightarrow> cpu_proc s' = cpu_proc s"
  by (auto simp add: popcli_def split: if_splits)

lemma release_cpu: "release l s = Ret u s' \<Longrightarrow> cpu_proc s' = cpu_proc s"
  by (auto simp add: release_def log_def split: if_splits dest!: popcli_cpu)

lemma acquire_cpu: "acquire l s = Ret u s' \<Longrightarrow> cpu_proc s' = cpu_proc s"
  by (auto simp add: acquire_def pushcli_def log_def Let_def split: if_splits)

lemma sched_Ret:
  assumes "sched W s = Ret u s2" and "sleeping_has_chan s" and "env_ok W"
    and "cpu_proc s = Some p" and "p < length (ptable s2)"
  shows "state (ptable s2 ! p) = RUNNING"
proof -
  from sched_cases [OF assms(4), of W] assms(1)
  have b: "sched W s = (case resume W (log ESwtch s) of
                        None \<Rightarrow> Away (log ESwtch s)
                      | Some s1 \<Rightarrow> Ret () (s1\<lparr>intena := intena s\<rparr>))"
    by auto
  show ?thesis
  proof (cases "resume W (log ESwtch s)")
    case None
    with b assms(1) show ?thesis by simp
  next
    case (Some s1)
    with b assms(1) have s2: "s2 = s1\<lparr>intena := intena s\<rparr>" by simp
    have i: "sleeping_has_chan (log ESwtch s)" and c: "cpu_proc (log ESwtch s) = Some p"
      using assms(2,4) by (simp_all add: log_def sleeping_has_chan_def)
    have "p < length (ptable s1)" using assms(5) by (simp add: s2)
    from env_ok_resume(2) [OF assms(3) Some i c this] show ?thesis
      by (simp add: s2)
  qed
qed

lemma shc_sleep:
  assumes "sleeping_has_chan s" and "env_ok W" and "c \<noteq> NULL"
  shows "sleeping_has_chan (state_of (sleep W c lk s))"
proof (cases "cpu_proc s")
  case None
  with assms(1) show ?thesis by (simp add: sleep_def)
next
  case (Some p)
  show ?thesis
  proof (cases lk)
    case None
    with Some assms(1) show ?thesis by (simp add: sleep_def)
  next
    case l: (Some l)
    let ?pre = "if l \<noteq> PTABLE_LOCK then kbind (acquire PTABLE_LOCK s) (\<lambda>_. release l)
                else Ret () s"
    have pre: "sleeping_has_chan (state_of ?pre)"
      using assms(1) by (auto intro!: shc_kbind shc_acquire shc_release)
    have cp: "cpu_proc s1 = Some p" if "?pre = Ret u s1" for u s1
      using that Some
      by (auto simp add: kbind_Ret split: if_splits dest!: acquire_cpu release_cpu)
    have post: "sleeping_has_chan (state_of
                  (let s3 = upd_proc p (\<lambda>r. r\<lparr>chan := NULL\<rparr>) s2 in
                   if l \<noteq> PTABLE_LOCK then kbind (release PTABLE_LOCK s3) (\<lambda>_. acquire l)
                   else Ret () s3))"
      if "sleeping_has_chan s2" "p < length (ptable s2) \<longrightarrow> state (ptable s2 ! p) = RUNNING"
      for s2
    proof -
      have "sleeping_has_chan (upd_proc p (\<lambda>r. r\<lparr>chan := NULL\<rparr>) s2)"
        using that(1) by (rule shc_upd_proc) (use that(2) in simp)
      then show ?thesis
        by (auto simp add: Let_def intro!: shc_kbind shc_acquire shc_release)
    qed
    have "sleeping_has_chan (state_of
            (kbind ?pre
               (\<lambda>_ s1.
                  kbind (sched W (upd_proc p (\<lambda>r. r\<lparr>chan := c, state := SLEEPING\<rparr>) s1))
                    (\<lambda>_ s2.
                       let s3 = upd_proc p (\<lambda>r. r\<lparr>chan := NULL\<rparr>) s2 in
                       if l \<noteq> PTABLE_LOCK
                       then kbind (release PTABLE_LOCK s3) (\<lambda>_. acquire l)
                       else Ret () s3))))"
    proof (rule shc_bind [OF pre])
      fix u s1
      assume e: "?pre = Ret u s1" and i: "sleeping_has_chan s1"
      let ?sc = "upd_proc p (\<lambda>r. r\<lparr>chan := c, state := SLEEPING\<rparr>) s1"
      have sc: "sleeping_has_chan ?sc"
        using i by (rule shc_upd_proc) (simp add: assms(3))
      have cpc: "cpu_proc ?sc = Some p"
        using cp [OF e] by (simp add: upd_proc_def)
      show "sleeping_has_chan (state_of
              (kbind (sched W ?sc)
                 (\<lambda>_ s2.
                    let s3 = upd_proc p (\<lambda>r. r\<lparr>chan := NULL\<rparr>) s2 in
                    if l \<noteq> PTABLE_LOCK
                    then kbind (release PTABLE_LOCK s3) (\<lambda>_. acquire l)
                    else Ret () s3)))"
      proof (rule shc_bind [OF shc_sched [OF sc assms(2)]])
        fix v s2
        assume "sched W ?sc = Ret v s2" and "sleeping_has_chan s2"
        then show "sleeping_has_chan (state_of
                     (let s3 = upd_proc p (\<lambda>r. r\<lparr>chan := NULL\<rparr>) s2 in
                      if l \<noteq> PTABLE_LOCK
                      then kbind (release PTABLE_LOCK s3) (\<lambda>_. acquire l)
                      else Ret () s3))"
          using sched_Ret [OF _ sc assms(2) cpc] by (intro post) auto
      qed
    qed
    with Some l show ?thesis by (simp add: sleep_def)
  qed
qed

lemma shc_yield:
  assumes "sleeping_has_chan s" and "env_ok W"
  shows "sleeping_has_chan (state_of (yield W s))"
  unfolding yield_def
proof (rule shc_bind [OF shc_acquire [OF assms(1)]])
  fix a :: unit and s1
  assume i: "sleeping_has_chan s1"
  show "sleeping_has_chan (state_of
          (case cpu_proc s1 of
             None \<Rightarrow> Panic ''trap'' s1
           | Some p \<Rightarrow>
               kbind (sched W (upd_proc p (\<lambda>r. r\<lparr>state := RUNNABLE\<rparr>) s1))
                 (\<lambda>_. release PTABLE_LOCK)))"
  proof (cases "cpu_proc s1")
    case None
    with i show ?thesis by simp
  next
    case (Some p)
    have "sleeping_has_chan (upd_proc p (\<lambda>r. r\<lparr>state := RUNNABLE\<rparr>) s1)"
      using i by (rule shc_upd_pres) simp
    with Some assms(2) show ?thesis
      by (simp add: shc_kbind shc_sched shc_release)
  qed
qed

lemma shc_sys_sleep_loop:
  assumes "env_ok W"
  shows "sleeping_has_chan s \<Longrightarrow> sleeping_has_chan (state_of (sys_sleep_loop W k n t0 s))"
proof (induction k arbitrary: s)
  case 0
  then show ?case by simp
next
  case (Suc k)
  have "sleeping_has_chan (state_of
          (kbind (sleep W TICKS (Some TICKSLOCK) s) (\<lambda>_. sys_sleep_loop W k n t0)))"
    by (intro shc_kbind shc_sleep Suc.prems assms Suc.IH) simp_all
  with Suc.prems show ?case
    by (auto simp add: shc_kbind shc_release split: option.split)
qed

lemma shc_sys_sleep:
  assumes "sleeping_has_chan s" and "env_ok W"
  shows "sleeping_has_chan (state_of (sys_sleep W fuel arg s))"
  using assms
  by (cases arg) (auto simp add: sys_sleep_def intro!: shc_kbind shc_acquire shc_sys_sleep_loop)

lemma shc_junk_fill [simp]: "sleeping_has_chan (junk_fill v n s) = sleeping_has_chan s"
  by (simp add: sleeping_has_chan_def junk_fill_def)

lemma shc_if_lock:
  "sleeping_has_chan s \<Longrightarrow>
   sleeping_has_chan (state_of (if b then acquire l s else Ret () s))"
  "sleeping_has_chan s \<Longrightarrow>
   sleeping_has_chan (state_of (if b then release l s else Ret () s))"
  by (simp_all add: shc_acquire shc_release)

lemma shc_kfree: "sleeping_has_chan s \<Longrightarrow> sleeping_has_chan (state_of (kfree W v s))"
  unfolding kfree_def
  by (auto simp add: Let_def intro!: shc_kbind shc_acquire shc_release)

lemma shc_kalloc: "sleeping_has_chan s \<Longrightarrow> sleeping_has_chan (state_of (kalloc s))"
  unfolding kalloc_def
  by (auto simp add: Let_def intro!: shc_kbind shc_acquire shc_release)

lemma shc_freevm: "sleeping_has_chan s \<Longrightarrow> sleeping_has_chan (state_of (freevm W pg s))"
  by (simp add: freevm_def)

lemma shc_allocproc:
  assumes "sleeping_has_chan s"
  shows "sleeping_has_chan (state_of (allocproc W s))"
  unfolding allocproc_def
proof (rule shc_kbind [OF shc_acquire [OF assms]])
  fix a :: unit and s1
  assume i: "sleeping_has_chan s1"
  show "sleeping_has_chan (state_of
     (case find_first (\<lambda>p. state p = UNUSED) (ptable s1) of
            None \<Rightarrow> kbind (release PTABLE_LOCK s1) (\<lambda>_. Ret None)
          | Some p \<Rightarrow>
              kbind (release PTABLE_LOCK
                       ((upd_proc p (\<lambda>r. r\<lparr>state := EMBRYO, pid := nextpid s1\<rparr>) s1)
                          \<lparr>nextpid := nextpid s1 + 1\<rparr>))
                (\<lambda>_ s2.
                   kbind (kalloc s2)
                     (\<lambda>k s3.
                        if k = 0
                        then Ret None
                               (upd_proc p (\<lambda>r. r\<lparr>kstack := 0, state := UNUSED\<rparr>) s3)
                        else
                          (let sp1 = k + KSTACKSIZE W - TFSIZE W;
                               sp2 = sp1 - 4;
                               sp3 = sp2 - 20;
                               s4 = upd_proc p (\<lambda>r. r\<lparr>kstack := k, tf := sp1, ctx := sp3\<rparr>) s3
                           in Ret (Some p)
                                (s4\<lparr>stackw := (stackw s4)(sp2 := trapret W),
                                    ctxs := (ctxs s4)(sp3 :=
                                      \<lparr>ctx_edi = 0, ctx_esi = 0, ctx_ebx = 0, ctx_ebp = 0,
                                       ctx_eip = forkret W\<rparr>)\<rparr>))))))"
  proof (cases "find_first (\<lambda>p. state p = UNUSED) (ptable s1)")
    case None
    with i show ?thesis by (simp add: shc_kbind shc_release)
  next
    case (Some p)
    have 1: "sleeping_has_chan ((upd_proc p (\<lambda>r. r\<lparr>state := EMBRYO, pid := nextpid s1\<rparr>) s1)
                          \<lparr>nextpid := nextpid s1 + 1\<rparr>)"
      using i by (simp add: shc_upd_pres)
    have 2: "sleeping_has_chan (state_of
               (if k = 0
                then Ret None (upd_proc p (\<lambda>r. r\<lparr>kstack := 0, state := UNUSED\<rparr>) s3)
                else
                  (let sp1 = k + KSTACKSIZE W - TFSIZE W;
                       sp2 = sp1 - 4;
                       sp3 = sp2 - 20;
                       s4 = upd_proc p (\<lambda>r. r\<lparr>kstack := k, tf := sp1, ctx := sp3\<rparr>) s3
                   in Ret (Some p)
                        (s4\<lparr>stackw := (stackw s4)(sp2 := trapret W),
                            ctxs := (ctxs s4)(sp3 :=
                              \<lparr>ctx_edi = 0, ctx_esi = 0, ctx_ebx = 0, ctx_ebp = 0,
                               ctx_eip = forkret W\<rparr>)\<rparr>))))"
      if "sleeping_has_chan s3" for k s3
      using that by (simp add: Let_def shc_upd_pres)
    from Some show ?thesis
      by (simp, intro shc_kbind shc_release 1 shc_kalloc 2)
  qed
qed

lemma shc_fork:
  assumes "sleeping_has_chan s"
  shows "sleeping_has_chan (state_of (fork W s))"
  unfolding fork_def
proof (rule shc_kbind [OF shc_allocproc [OF assms]])
  fix np s1
  assume i: "sleeping_has_chan s1"
  have up: "sleeping_has_chan (upd_proc n f x)"
    if "sleeping_has_chan x" "\<And>r. state (f r) = state r \<and> chan (f r) = chan r" for n f x
    using that(1) by (rule shc_upd_pres) (simp add: that(2))
  show "sleeping_has_chan (state_of
     (case np of
            None \<Rightarrow> Ret (- 1) s1
          | Some n \<Rightarrow>
              (case cpu_proc s of
                 None \<Rightarrow> Panic ''trap'' s1
               | Some c \<Rightarrow>
                   (let cur = ptable s1 ! c;
                        (d, fl) = copyuvm_op W (pgdir cur) (sz cur) (freelist s1);
                        s2 = upd_proc n (\<lambda>r. r\<lparr>pgdir := d\<rparr>) (s1\<lparr>freelist := fl\<rparr>)
                    in if d = 0
                       then kbind (kfree W (kstack (ptable s2 ! n)) s2)
                              (\<lambda>_ s3. Ret (- 1)
                                 (upd_proc n (\<lambda>r. r\<lparr>kstack := 0, state := UNUSED\<rparr>) s3))
                       else
                         (let s3 = upd_proc n (\<lambda>r. r\<lparr>sz := sz (ptable s2 ! c),
                                                       parent := Some c\<rparr>) s2;
                              t = tf (ptable s3 ! n);
                              s4 = s3\<lparr>tfs := (tfs s3)(t := tfs s3 (tf (ptable s3 ! c)))\<rparr>;
                              s5 = s4\<lparr>tfs := (tfs s4)(t := (tfs s4 t)\<lparr>eax := 0\<rparr>)\<rparr>;
                              cf = ofile (ptable s5 ! c);
                              s6 = log_all (map EFiledup (filter (\<lambda>f. f \<noteq> 0) cf))
                                     (upd_proc n (\<lambda>r. r\<lparr>ofile := dup_files cf (ofile r)\<rparr>) s5);
                              s7 = log (EIdup (cwd (ptable s6 ! c)))
                                     (upd_proc n (\<lambda>r. r\<lparr>cwd := cwd (ptable s6 ! c)\<rparr>) s6);
                              s8 = upd_proc n
                                     (\<lambda>r. r\<lparr>name := safestrcpy (name (ptable s7 ! c)) 16\<rparr>) s7;
                              pd = pid (ptable s8 ! n)
                          in kbind (acquire PTABLE_LOCK s8)
                               (\<lambda>_ s9.
                                  kbind (release PTABLE_LOCK
                                           (upd_proc n (\<lambda>r. r\<lparr>state := RUNNABLE\<rparr>) s9))
                                    (\<lambda>_. Ret pd)))))))"
  proof (cases np)
    case None
    with i show ?thesis by simp
  next
    case n: (Some n)
    show ?thesis
    proof (cases "cpu_proc s")
      case None
      with n i show ?thesis by simp
    next
      case (Some c)
      obtain d fl where cp: "copyuvm_op W (pgdir (ptable s1 ! c)) (sz (ptable s1 ! c))
                               (freelist s1) = (d, fl)"
        by (cases "copyuvm_op W (pgdir (ptable s1 ! c)) (sz (ptable s1 ! c)) (freelist s1)")
      define s2 where "s2 = upd_proc n (\<lambda>r. r\<lparr>pgdir := d\<rparr>) (s1\<lparr>freelist := fl\<rparr>)"
      have i2: "sleeping_has_chan s2"
        unfolding s2_def using i by (simp add: up)
      show ?thesis
      proof (cases "d = 0")
        case True
        have "sleeping_has_chan (state_of
                (kbind (kfree W (kstack (ptable s2 ! n)) s2)
                   (\<lambda>_ s3. Ret (- 1)
                      (upd_proc n (\<lambda>r. r\<lparr>kstack := 0, state := UNUSED\<rparr>) s3))))"
          by (intro shc_kbind shc_kfree i2) (simp add: shc_upd_pres)
        with n Some cp True show ?thesis
          by (simp add: Let_def s2_def)
      next
        case False
        define s8 where
          "s8 = (let s3 = upd_proc n (\<lambda>r. r\<lparr>sz := sz (ptable s2 ! c),
                                                       parent := Some c\<rparr>) s2;
                              t = tf (ptable s3 ! n);
                              s4 = s3\<lparr>tfs := (tfs s3)(t := tfs s3 (tf (ptable s3 ! c)))\<rparr>;
                              s5 = s4\<lparr>tfs := (tfs s4)(t := (tfs s4 t)\<lparr>eax := 0\<rparr>)\<rparr>;
                              cf = ofile (ptable s5 ! c);
                              s6 = log_all (map EFiledup (filter (\<lambda>f. f \<noteq> 0) cf))
                                     (upd_proc n (\<lambda>r. r\<lparr>ofile := dup_files cf (ofile r)\<rparr>) s5);
                              s7 = log (EIdup (cwd (ptable s6 ! c)))
                                     (upd_proc n (\<lambda>r. r\<lparr>cwd := cwd (ptable s6 ! c)\<rparr>) s6)
                 in upd_proc n
                      (\<lambda>r. r\<lparr>name := safestrcpy (name (ptable s7 ! c)) 16\<rparr>) s7)"
        have i8: "sleeping_has_chan s8"
          unfolding s8_def Let_def using i2 by (simp add: up)
        have "sleeping_has_chan (state_of
                (kbind (acquire PTABLE_LOCK s8)
                               (\<lambda>_ s9.
                                  kbind (release PTABLE_LOCK
                                           (upd_proc n (\<lambda>r. r\<lparr>state := RUNNABLE\<rparr>) s9))
                                    (\<lambda>_. Ret (pid (ptable s8 ! n))))))"
          by (intro shc_kbind shc_acquire i8 shc_release) (simp_all add: shc_upd_pres)
        with n Some cp False show ?thesis
          by (simp add: Let_def s2_def s8_def)
      qed
    qed
  qed
qed

lemma shc_reparent:
  "sleeping_has_chan s \<Longrightarrow> sleeping_has_chan (reparent ps c s)"
proof (induction ps arbitrary: s)
  case Nil
  then show ?case by simp
next
  case (Cons i ps)
  have 1: "sleeping_has_chan (upd_proc i (\<lambda>r. r\<lparr>parent := initproc s\<rparr>) s)"
    using Cons.prems by (rule shc_upd_pres) simp
  have "sleeping_has_chan
          (if parent (ptable s ! i) = c
           then (let s1 = upd_proc i (\<lambda>r. r\<lparr>parent := initproc s\<rparr>) s in
                 if state (ptable s1 ! i) = ZOMBIE then wakeup1 (chan_of (initproc s1)) s1
                 else s1)
           else s)"
    using Cons.prems 1 by (simp add: Let_def shc_wakeup1)
  then show ?case
    by (simp only: reparent.simps) (rule Cons.IH)
qed

lemma shc_exit:
  assumes "sleeping_has_chan s" and "env_ok W"
  shows "sleeping_has_chan (state_of (exit W s))"
proof (cases "cpu_proc s = initproc s")
  case True
  with assms(1) show ?thesis by (simp add: exit_def)
next
  case ni: False
  show ?thesis
  proof (cases "cpu_proc s")
    case None
    with ni assms(1) show ?thesis by (simp add: exit_def)
  next
    case (Some c)
    define s3 where
      "s3 = (let s1 = log_all (map EFileclose (filter (\<lambda>f. f \<noteq> 0) (ofile (ptable s ! c))))
                      (upd_proc c (\<lambda>r. r\<lparr>ofile := map (\<lambda>_. 0) (ofile r)\<rparr>) s);
               s2 = log_all [EBeginOp, EIput (cwd (ptable s1 ! c)), EEndOp] s1
             in upd_proc c (\<lambda>r. r\<lparr>cwd := 0\<rparr>) s2)"
    have i3: "sleeping_has_chan s3"
      unfolding s3_def Let_def using assms(1) by (simp add: shc_upd_pres)
    have k: "sleeping_has_chan (state_of
               (let s5 = wakeup1 (chan_of (parent (ptable s4 ! c))) s4;
                    s6 = reparent [0..<length (ptable s5)] (Some c) s5;
                    s7 = upd_proc c (\<lambda>r. r\<lparr>state := ZOMBIE\<rparr>) s6
                in kbind (sched W s7) (\<lambda>_ s8. Panic ''zombie exit'' s8)))"
      if "sleeping_has_chan s4" for s4
    proof -
      have "sleeping_has_chan (upd_proc c (\<lambda>r. r\<lparr>state := ZOMBIE\<rparr>)
              (reparent [0..<length (ptable (wakeup1 (chan_of (parent (ptable s4 ! c))) s4))]
                 (Some c) (wakeup1 (chan_of (parent (ptable s4 ! c))) s4)))"
        by (intro shc_upd_pres shc_reparent shc_wakeup1 that) simp
      then show ?thesis
        unfolding Let_def
        by (intro shc_kbind shc_sched assms(2)) simp_all
    qed
    have "sleeping_has_chan (state_of
            (kbind (acquire PTABLE_LOCK s3)
                (\<lambda>_ s4.
                   let s5 = wakeup1 (chan_of (parent (ptable s4 ! c))) s4;
                       s6 = reparent [0..<length (ptable s5)] (Some c) s5;
                       s7 = upd_proc c (\<lambda>r. r\<lparr>state := ZOMBIE\<rparr>) s6
                   in kbind (sched W s7) (\<lambda>_ s8. Panic ''zombie exit'' s8))))"
      by (intro shc_kbind shc_acquire i3 k)
    with ni Some show ?thesis
      by (simp add: exit_def s3_def Let_def)
  qed
qed

lemma shc_wait_scan:
  "sleeping_has_chan s \<Longrightarrow> sleeping_has_chan (state_of (wait_scan W ps c hk s))"
proof (induction ps arbitrary: hk)
  case Nil
  then show ?case by simp
next
  case (Cons i ps)
  have "sleeping_has_chan (state_of
          (kbind (kfree W (kstack (ptable s ! i)) s)
              (\<lambda>_ s1.
                 let s2 = upd_proc i (\<lambda>r. r\<lparr>kstack := 0\<rparr>) s1 in
                 kbind (freevm W (pgdir (ptable s2 ! i)) s2)
                   (\<lambda>_ s3.
                      kbind (release PTABLE_LOCK
                               (upd_proc i (\<lambda>r. r\<lparr>pid := 0, parent := None, name := [],
                                                  killed := 0, state := UNUSED\<rparr>) s3))
                        (\<lambda>_. Ret (Some pd, True))))))" for pd
    unfolding Let_def
    by (intro shc_kbind shc_kfree Cons.prems shc_freevm shc_release shc_upd_pres) simp_all
  from this [of "pid (ptable s ! i)"] Cons show ?case
    by (simp add: Let_def)
qed

lemma shc_wait_loop:
  assumes "env_ok W"
  shows "sleeping_has_chan s \<Longrightarrow> sleeping_has_chan (state_of (wait_loop W k c s))"
proof (induction k arbitrary: s)
  case 0
  then show ?case by simp
next
  case (Suc k)
  have "sleeping_has_chan (state_of
          (case r of
            Some pd \<Rightarrow> Ret pd s1
          | None \<Rightarrow>
              (case c of
                 None \<Rightarrow> if \<not> hk then kbind (release PTABLE_LOCK s1) (\<lambda>_. Ret (- 1))
                         else Panic ''trap'' s1
               | Some p \<Rightarrow>
                   if \<not> hk \<or> killed (ptable s1 ! p) \<noteq> 0
                   then kbind (release PTABLE_LOCK s1) (\<lambda>_. Ret (- 1))
                   else kbind (sleep W (chan_of c) (Some PTABLE_LOCK) s1)
                          (\<lambda>_. wait_loop W k c))))"
    if i: "sleeping_has_chan s1" for r hk s1
  proof (cases r)
    case (Some pd)
    with i show ?thesis by simp
  next
    case None
    show ?thesis
    proof (cases c)
      case n: None
      with None i show ?thesis by (simp add: shc_kbind shc_release)
    next
      case (Some p)
      have "sleeping_has_chan (state_of
              (kbind (sleep W (chan_of c) (Some PTABLE_LOCK) s1) (\<lambda>_. wait_loop W k c)))"
        using Some
        by (intro shc_kbind shc_sleep i assms Suc.IH) simp_all
      with None Some i show ?thesis
        by (simp add: shc_kbind shc_release)
    qed
  qed
  then have "sleeping_has_chan (state_of
          (kbind (wait_scan W [0..<length (ptable s)] c False s)
             (\<lambda>(r, hk) s1.
          case r of
            Some pd \<Rightarrow> Ret pd s1
          | None \<Rightarrow>
              (case c of
                 None \<Rightarrow> if \<not> hk then kbind (release PTABLE_LOCK s1) (\<lambda>_. Ret (- 1))
                         else Panic ''trap'' s1
               | Some p \<Rightarrow>
                   if \<not> hk \<or> killed (ptable s1 ! p) \<noteq> 0
                   then kbind (release PTABLE_LOCK s1) (\<lambda>_. Ret (- 1))
                   else kbind (sleep W (chan_of c) (Some PTABLE_LOCK) s1)
                          (\<lambda>_. wait_loop W k c)))))"
    by (intro shc_kbind shc_wait_scan Suc.prems) (simp add: split_def)
  then show ?case by simp
qed

lemma shc_wait:
  assumes "sleeping_has_chan s" and "env_ok W"
  shows "sleeping_has_chan (state_of (wait W fuel s))"
  unfolding wait_def
  by (intro shc_kbind shc_acquire assms(1) shc_wait_loop assms(2))

lemma shc_pushcli [simp]: "sleeping_has_chan (pushcli s) = sleeping_has_chan s"
  by (simp add: pushcli_def)

lemma shc_switchuvm:
  "sleeping_has_chan s \<Longrightarrow> sleeping_has_chan (state_of (switchuvm po s))"
  by (cases po) (simp_all add: switchuvm_def shc_popcli)

lemma shc_scheduler_slot:
  assumes "sleeping_has_chan s" and "env_ok W"
  shows "sleeping_has_chan (state_of (scheduler_slot W p s))"
proof (cases "state (ptable s ! p) \<noteq> RUNNABLE")
  case True
  with assms(1) show ?thesis by (simp add: scheduler_slot_def)
next
  case False
  have k: "sleeping_has_chan (state_of
             (let s2 = log ESwtch (upd_proc p (\<lambda>r. r\<lparr>state := RUNNING\<rparr>) s1) in
              case run_proc W s2 of
                None \<Rightarrow> Away s2
              | Some s3 \<Rightarrow> Ret () ((log ESwitchkvm s3)\<lparr>cpu_proc := None\<rparr>)))"
    if "sleeping_has_chan s1" for s1
  proof -
    have i2: "sleeping_has_chan (log ESwtch (upd_proc p (\<lambda>r. r\<lparr>state := RUNNING\<rparr>) s1))"
      using that by (simp add: shc_upd_pres)
    show ?thesis
    proof (cases "run_proc W (log ESwtch (upd_proc p (\<lambda>r. r\<lparr>state := RUNNING\<rparr>) s1))")
      case None
      with i2 show ?thesis by (simp add: Let_def)
    next
      case (Some s3)
      from env_ok_others(1) [OF assms(2) Some i2] Some show ?thesis
        by (simp add: Let_def)
    qed
  qed
  have "sleeping_has_chan (state_of
          (kbind (switchuvm (Some p) (s\<lparr>cpu_proc := Some p\<rparr>))
             (\<lambda>_ s1.
                let s2 = log ESwtch (upd_proc p (\<lambda>r. r\<lparr>state := RUNNING\<rparr>) s1) in
                case run_proc W s2 of
                  None \<Rightarrow> Away s2
                | Some s3 \<Rightarrow> Ret () ((log ESwitchkvm s3)\<lparr>cpu_proc := None\<rparr>))))"
    by (intro shc_kbind shc_switchuvm k) (simp add: assms(1))
  with False show ?thesis by (simp add: scheduler_slot_def)
qed

lemma shc_scheduler_scan:
  assumes "env_ok W"
  shows "sleeping_has_chan s \<Longrightarrow> sleeping_has_chan (state_of (scheduler_scan W ps s))"
proof (induction ps arbitrary: s)
  case Nil
  then show ?case by simp
next
  case (Cons p ps)
  show ?case
    unfolding scheduler_scan.simps
    by (intro shc_kbind shc_scheduler_slot Cons.prems assms Cons.IH)
qed

lemma shc_scheduler_round:
  assumes "sleeping_has_chan s" and "env_ok W"
  shows "sleeping_has_chan (state_of (scheduler_round W s))"
  unfolding scheduler_round_def
  by (intro shc_kbind shc_acquire shc_scheduler_scan shc_release assms(2))
     (simp add: assms(1))

lemma shc_cpuid_bind:
  assumes "sleeping_has_chan s"
    and "\<And>a s1. sleeping_has_chan s1 \<Longrightarrow> sleeping_has_chan (state_of (f a s1))"
  shows "sleeping_has_chan (state_of (kbind (cpuid s) f))"
  using assms by (simp add: cpuid_def)

lemma shc_eoi: "sleeping_has_chan s \<Longrightarrow> sleeping_has_chan (state_of (eoi u s))"
  by (simp add: eoi_def)

lemma shc_unexpected_trap:
  "sleeping_has_chan s \<Longrightarrow> sleeping_has_chan (state_of (unexpected_trap s))"
  by (simp add: unexpected_trap_def cpuid_def)

lemma shc_trap_switch:
  assumes "sleeping_has_chan s" and "env_ok W"
  shows "sleeping_has_chan (state_of (trap_switch W t s))"
proof -
  have timer: "sleeping_has_chan (state_of
        (kbind (kbind (cpuid s)
                 (\<lambda>i s1.
                    if i = 0
                    then kbind (acquire TICKSLOCK s1)
                           (\<lambda>_ s2. kbind (wakeup TICKS (s2\<lparr>ticks := ticks s2 + 1\<rparr>))
                                      (\<lambda>_. release TICKSLOCK))
                    else Ret () s1))
          eoi))"
    by (intro shc_kbind shc_cpuid_bind assms(1) shc_eoi)
       (auto intro!: shc_kbind shc_acquire shc_wakeup shc_release)
  have dev1: "sleeping_has_chan (state_of (kbind (ideintr_op W s) eoi))"
    by (intro shc_kbind env_ok_others(3) [OF assms(2)] assms(1) shc_eoi)
  have dev2: "sleeping_has_chan (state_of (kbind (kbdintr_op W s) eoi))"
    by (intro shc_kbind env_ok_others(4) [OF assms(2)] assms(1) shc_eoi)
  have dev3: "sleeping_has_chan (state_of (kbind (uartintr_op W s) eoi))"
    by (intro shc_kbind env_ok_others(5) [OF assms(2)] assms(1) shc_eoi)
  note dev = dev1 dev2 dev3
  have spur: "sleeping_has_chan (state_of
        (kbind (cpuid s) (\<lambda>_ s1. eoi () (log (ECprintf ''spurious interrupt'') s1))))"
    by (intro shc_cpuid_bind assms(1) shc_eoi) simp
  have dflt: "sleeping_has_chan (state_of
        (case cpu_proc s of
           None \<Rightarrow> unexpected_trap s
         | Some p \<Rightarrow>
             if cs (tfs s t) AND 3 = 0 then unexpected_trap s
             else
               kbind (cpuid s)
                 (\<lambda>_ s1. Ret () (upd_proc p (\<lambda>r. r\<lparr>killed := 1\<rparr>)
                                   (log (ECprintf ''kill proc'') s1)))))"
    using assms(1)
    by (cases "cpu_proc s")
       (auto intro!: shc_unexpected_trap shc_cpuid_bind shc_upd_pres)
  show ?thesis
    unfolding trap_switch_def Let_def
    using timer dev spur dflt assms(1) by simp
qed

lemma shc_trap_killed:
  assumes "sleeping_has_chan s" and "env_ok W"
  shows "sleeping_has_chan (state_of (trap_killed W t s))"
  using assms by (cases "cpu_proc s") (simp_all add: trap_killed_def shc_exit)

lemma shc_trap_yield:
  assumes "sleeping_has_chan s" and "env_ok W"
  shows "sleeping_has_chan (state_of (trap_yield W t s))"
  using assms by (cases "cpu_proc s") (simp_all add: trap_yield_def shc_yield)

lemma shc_syscall_killed:
  assumes "sleeping_has_chan s" and "env_ok W"
  shows "sleeping_has_chan (state_of (syscall_killed W s))"
  using assms by (cases "cpu_proc s") (simp_all add: syscall_killed_def shc_exit)

lemma shc_trap:
  assumes "sleeping_has_chan s" and "env_ok W"
  shows "sleeping_has_chan (state_of (trap W t s))"
proof (cases "trapno (tfs s t) = T_SYSCALL")
  case True
  have "sleeping_has_chan (state_of
          (case cpu_proc s1 of
               None \<Rightarrow> Panic ''trap'' s1
             | Some p \<Rightarrow>
                 kbind (syscall_op W (upd_proc p (\<lambda>r. r\<lparr>tf := t\<rparr>) s1))
                   (\<lambda>_. syscall_killed W)))"
    if "sleeping_has_chan s1" for s1
    using that
    by (cases "cpu_proc s1")
       (auto intro!: shc_kbind env_ok_others(2) [OF assms(2)] shc_upd_pres shc_syscall_killed assms(2))
  then have "sleeping_has_chan (state_of
          (kbind (syscall_killed W s)
          (\<lambda>_ s1.
             case cpu_proc s1 of
               None \<Rightarrow> Panic ''trap'' s1
             | Some p \<Rightarrow>
                 kbind (syscall_op W (upd_proc p (\<lambda>r. r\<lparr>tf := t\<rparr>) s1))
                   (\<lambda>_. syscall_killed W))))"
    by (intro shc_kbind shc_syscall_killed assms)
  with True show ?thesis by (simp add: trap_def)
next
  case False
  have "sleeping_has_chan (state_of
          (kbind (trap_switch W t s)
          (\<lambda>_ s1. kbind (trap_killed W t s1)
             (\<lambda>_ s2. kbind (trap_yield W t s2)
                (\<lambda>_. trap_killed W t)))))"
    by (intro shc_kbind shc_trap_switch shc_trap_killed shc_trap_yield assms)
  with False show ?thesis by (simp add: trap_def)
qed

lemma shc_run_op:
  assumes "sleeping_has_chan s" and "env_ok W" and "op_ok x"
  shows "sleeping_has_chan (run_op W x s)"
  using assms
  by (cases x)
     (simp_all add: shc_sleep shc_wakeup shc_kill shc_scheduler_round shc_yield shc_fork shc_exit
        shc_wait shc_sys_sleep shc_trap)

text \<open>
  C3, as the code has it. Every operation that writes a state or a channel (\<^verbatim>\<open>sleep\<close> on
  a non-null channel, \<^verbatim>\<open>wakeup\<close>, \<^verbatim>\<open>kill\<close>, a round of the scheduler, \<^verbatim>\<open>yield\<close>, \<^verbatim>\<open>fork\<close>,
  \<^verbatim>\<open>exit\<close>, \<^verbatim>\<open>wait\<close>, \<^verbatim>\<open>sys_sleep\<close>, \<^verbatim>\<open>trap\<close>) keeps one half of the invariant: in every
  slot, state \<^verbatim>\<open>SLEEPING\<close> implies a non-null channel. So it holds in every state that a
  sequence of operations reaches from a state where it holds, given collaborators that
  keep it. The other half does not hold: \<^verbatim>\<open>wakeup\<close> and \<^verbatim>\<open>kill\<close> make a sleeper
  \<^verbatim>\<open>RUNNABLE\<close> and leave its channel, which the sleeper clears itself when it runs again.
\<close>

theorem sleeping_has_chan_invariant:
  assumes "sleeping_has_chan s" and "env_ok W" and "\<forall>x\<in>set ops. op_ok x"
  shows "sleeping_has_chan (run_ops W ops s)"
  using assms(1,3)
proof (induction ops arbitrary: s)
  case Nil
  then show ?case by simp
next
  case (Cons x ops)
  from Cons.prems have "sleeping_has_chan (run_op W x s)"
    by (intro shc_run_op assms(2)) simp_all
  with Cons.IH Cons.prems(2) show ?case by simp
qed

lemma env_ok_world0: "env_ok world0"
  by (simp add: env_ok_def world0_def)

lemma sys_sleep_asleep:
  "ptable (state_of (sys_sleep world0 (Suc 0) (Some 5) tick_state)) =
     [proc0\<lparr>state := SLEEPING, pid := 1, chan := TICKS\<rparr>]"
  by (simp add: sys_sleep_def acquire_def pushcli_def sleep_def sched_def release_def
        popcli_def world0_def tick_state_def kstate0_def proc0_def upd_proc_def
        log_def holding_def Let_def)

theorem sleeping_has_chan_invariant_witness:
  "sleeping_has_chan (run_ops world0 [OpSysSleep 1 (Some 5)] tick_state) \<and>
   map state (ptable (run_ops world0 [OpSysSleep 1 (Some 5)] tick_state)) = [SLEEPING] \<and>
   map chan (ptable (run_ops world0 [OpSysSleep 1 (Some 5)] tick_state)) = [TICKS]"
proof -
  have "sleeping_has_chan tick_state"
    by (simp add: sleeping_has_chan_def tick_state_def kstate0_def proc0_def)
  moreover have "\<forall>x\<in>set [OpSysSleep 1 (Some 5)]. op_ok x" by simp
  ultimately have "sleeping_has_chan (run_ops world0 [OpSysSleep 1 (Some 5)] tick_state)"
    using env_ok_world0 by (intro sleeping_has_chan_invariant)
  then show ?thesis
    by (simp add: sys_sleep_asleep proc0_def)
qed

text \<open>
  The claim C3 as it is written fails. The process of \<open>tick_state\<close> goes to sleep in
  \<^verbatim>\<open>sys_sleep\<close>, which gives the table of \<open>asleep_state\<close>; both satisfy the invariant as
  the specification words it. The next timer interrupt calls \<^verbatim>\<open>wakeup(&ticks)\<close>: the
  process is \<^verbatim>\<open>RUNNABLE\<close> and its channel is still \<^verbatim>\<open>&ticks\<close>.
\<close>

theorem chan_iff_sleeping_counterexample:
  "chan_iff_sleeping tick_state \<and>
   ptable (run_ops world0 [OpSysSleep 1 (Some 5)] tick_state) = ptable asleep_state \<and>
   chan_iff_sleeping asleep_state \<and>
   \<not> chan_iff_sleeping (run_ops world0 [OpTrap 0] asleep_state) \<and>
   map state (ptable (run_ops world0 [OpTrap 0] asleep_state)) = [RUNNABLE] \<and>
   map chan (ptable (run_ops world0 [OpTrap 0] asleep_state)) = [TICKS]"
proof -
  have "ptable (run_ops world0 [OpTrap 0] asleep_state) =
          [proc0\<lparr>state := RUNNABLE, pid := 1, chan := TICKS\<rparr>]"
    by (simp add: trap_def trap_switch_def cpuid_def eoi_def wakeup_def wakeup1_def
          trap_killed_def trap_yield_def acquire_def pushcli_def release_def popcli_def
          asleep_state_def kstate0_def proc0_def tf0_def log_def holding_def Let_def world0_def
          T_SYSCALL_def T_IRQ0_def IRQ_TIMER_def)
  moreover have "ptable asleep_state = [proc0\<lparr>state := SLEEPING, pid := 1, chan := TICKS\<rparr>]"
    by (simp add: asleep_state_def kstate0_def)
  moreover have "chan_iff_sleeping tick_state"
    by (simp add: chan_iff_sleeping_def tick_state_def kstate0_def proc0_def)
  ultimately show ?thesis
    by (simp add: chan_iff_sleeping_def sys_sleep_asleep proc0_def)
qed

end
